theory Spec2Isabelle
  imports Main
begin

section \<open>Python values and strings\<close>

text \<open>
  A raw record is a Python dict with string keys. The values the scraping layer puts
  under the known keys are a string, the null value, or (for one key) a sequence of
  strings. Strings are lists of 8-bit characters, that is code points 0 to 255.
\<close>

datatype pyval = PNone | PStr string | PList "string list"

type_synonym entry = "string \<rightharpoonup> pyval"

datatype pyerr =
    IndexError
  | TypeError
  | AttributeError
  | SqliteError string
  | PandasDatabaseError string

text \<open>\<^verbatim>\<open>entry.get(key, default)\<close>: the default is used only when the key is absent.\<close>

definition dict_get :: "entry \<Rightarrow> string \<Rightarrow> pyval \<Rightarrow> pyval" where
  "dict_get e k d = (case e k of None \<Rightarrow> d | Some v \<Rightarrow> v)"

text \<open>\<^verbatim>\<open>s.split(sep)\<close> for a one-character separator: never the empty list.\<close>

fun split_on :: "char \<Rightarrow> string \<Rightarrow> string list" where
  "split_on c [] = [[]]"
| "split_on c (x # xs) =
     (if x = c then [] # split_on c xs
      else (case split_on c xs of [] \<Rightarrow> [[x]] | y # ys \<Rightarrow> (x # y) # ys))"

text \<open>\<^verbatim>\<open>s.replace(c, '')\<close> removes every occurrence of the character.\<close>

definition remove_char :: "char \<Rightarrow> string \<Rightarrow> string" where
  "remove_char c s = filter (\<lambda>x. x \<noteq> c) s"

text \<open>\<^verbatim>\<open>sep.join(xs)\<close>\<close>

fun join :: "string \<Rightarrow> string list \<Rightarrow> string" where
  "join sep [] = []"
| "join sep [x] = x"
| "join sep (x # y # ys) = x @ sep @ join sep (y # ys)"

section \<open>extract_author_post_id\<close>

text \<open>
  \<^verbatim>\<open>author = link.split('/')[3].replace('@', '')\<close> raises IndexError when the split has
  fewer than four segments; \<^verbatim>\<open>link.split('/')[-1]\<close> is the last segment, which always
  exists.
\<close>

definition extract_author_post_id :: "string \<Rightarrow> pyerr + (string \<times> string \<times> string)" where
  "extract_author_post_id link =
     (let segs = split_on CHR ''/'' link in
      if length segs \<le> 3 then Inl IndexError
      else
        (let author = remove_char CHR ''@'' (segs ! 3);
             link_to_author = ''https://www.tiktok.com/@'' @ author;
             post_id = last segs
         in Inr (author, link_to_author, post_id)))"

section \<open>The likes and comments patterns\<close>

text \<open>
  The text searched is a Python \<^verbatim>\<open>str\<close>, a sequence of Unicode code points, and the
  patterns are \<^verbatim>\<open>str\<close> patterns: \<^verbatim>\<open>\d\<close> is any Unicode decimal digit, and
  \<^verbatim>\<open>re.IGNORECASE\<close> compares through the Unicode lowercase mapping. Both tables belong to
  the interpreter's build of the Unicode database, so they are a parameter of the model:
  \<open>is_decimal\<close> is what \<^verbatim>\<open>str.isdecimal\<close> says of one code point, \<open>to_lower\<close> is the
  lowercase mapping the engine applies to a character of the text.
\<close>

type_synonym ustring = "nat list"

record ucd =
  is_decimal :: "nat \<Rightarrow> bool"
  to_lower :: "nat \<Rightarrow> nat"

text \<open>The code points of a string of characters below 256, and back.\<close>

definition codes :: "string \<Rightarrow> ustring" where
  "codes s = map of_char s"

definition chars :: "ustring \<Rightarrow> string" where
  "chars w = map char_of w"

text \<open>
  A set of characters of a compiled pattern: the decimal digits; characters compared as
  they are; characters compared after the text's character is lowercased.
\<close>

datatype cclass = Decimal | Exactly "nat list" | Folded "nat list" | Union cclass cclass

fun cc_match :: "ucd \<Rightarrow> cclass \<Rightarrow> nat \<Rightarrow> bool" where
  "cc_match u Decimal c = is_decimal u c"
| "cc_match u (Exactly cs) c = (c \<in> set cs)"
| "cc_match u (Folded cs) c = (to_lower u c \<in> set cs)"
| "cc_match u (Union a b) c = (cc_match u a c \<or> cc_match u b c)"

text \<open>
  How the compiler treats one literal character of an ASCII pattern under
  \<^verbatim>\<open>re.IGNORECASE\<close>. A character without case (the space) is compared as it is. A letter
  is lowercased, and the text's character, lowercased, is compared with it and with the
  other characters the engine's table of equivalences lists for it: the dotless i for i,
  the long s for s. The other rows of that table are for letters outside ASCII.
\<close>

definition ignorecase_fixes :: "nat \<Rightarrow> nat list" where
  "ignorecase_fixes lo = (if lo = 0x69 then [0x131] else if lo = 0x73 then [0x17F] else [])"

definition literal_class :: "char \<Rightarrow> cclass" where
  "literal_class p =
     (let n = (of_char p :: nat) in
      if 0x41 \<le> n \<and> n \<le> 0x5A then Folded ((n + 0x20) # ignorecase_fixes (n + 0x20))
      else if 0x61 \<le> n \<and> n \<le> 0x7A then Folded (n # ignorecase_fixes n)
      else Exactly [n])"

datatype rx = Eps | Cls cclass | Star cclass | Plus cclass | Seq rx rx | Opt rx

text \<open>
  The backtracking matcher: \<open>rx_match u r s\<close> lists, in the order in which the engine
  tries them, the rests of \<open>s\<close> that remain after a match of \<open>r\<close> at the start of
  \<open>s\<close>. The quantifiers are greedy: the longest repetition comes first, and an
  optional part is tried before it is skipped.
\<close>

fun rx_match :: "ucd \<Rightarrow> rx \<Rightarrow> ustring \<Rightarrow> ustring list" where
  "rx_match u Eps s = [s]"
| "rx_match u (Cls k) s =
     (case s of [] \<Rightarrow> [] | c # cs \<Rightarrow> if cc_match u k c then [cs] else [])"
| "rx_match u (Star k) s =
     map (\<lambda>n. drop n s) (rev [0 ..< Suc (length (takeWhile (cc_match u k) s))])"
| "rx_match u (Plus k) s =
     map (\<lambda>n. drop n s) (rev [1 ..< Suc (length (takeWhile (cc_match u k) s))])"
| "rx_match u (Seq a b) s = concat (map (rx_match u b) (rx_match u a s))"
| "rx_match u (Opt a) s = rx_match u a s @ [s]"

text \<open>A literal text of the pattern.\<close>

fun lit :: "string \<Rightarrow> rx" where
  "lit [] = Eps"
| "lit (p # ps) = Seq (Cls (literal_class p)) (lit ps)"

text \<open>
  The group \<^verbatim>\<open>(\d+(?:[\d,.]*\d+)?(?:[KM])?)\<close>. The class \<^verbatim>\<open>[\d,.]\<close> has no letter, so its
  characters are compared as they are; the class \<^verbatim>\<open>[KM]\<close> is compiled to the lowercase
  letters, compared with the lowercased character of the text.
\<close>

definition number_rx :: rx where
  "number_rx =
     Seq (Plus Decimal)
       (Seq (Opt (Seq (Star (Union Decimal (Exactly (codes '',.'')))) (Plus Decimal)))
            (Opt (Cls (Folded (codes ''km'')))))"

text \<open>
  A match of \<^verbatim>\<open>(group)rest\<close> at the start of \<open>s\<close>: the first way of matching the
  group after which the rest matches; the value is the text of the group.
\<close>

definition match_here :: "ucd \<Rightarrow> rx \<Rightarrow> rx \<Rightarrow> ustring \<Rightarrow> ustring option" where
  "match_here u g rest s =
     (case filter (\<lambda>r. rx_match u rest r \<noteq> []) (rx_match u g s) of
        [] \<Rightarrow> None
      | r # _ \<Rightarrow> Some (take (length s - length r) s))"

text \<open>\<^verbatim>\<open>pattern.search(text)\<close>: the match at the leftmost start position that has one.\<close>

fun rx_search :: "ucd \<Rightarrow> rx \<Rightarrow> rx \<Rightarrow> ustring \<Rightarrow> ustring option" where
  "rx_search u g rest s =
     (case match_here u g rest s of
        Some w \<Rightarrow> Some w
      | None \<Rightarrow> (case s of [] \<Rightarrow> None | _ # cs \<Rightarrow> rx_search u g rest cs))"

text \<open>
  \<^verbatim>\<open>extract_likes_comments\<close> on a \<^verbatim>\<open>str\<close>: the two searches, and group 1 of each match
  or the null value.
\<close>

definition extract_likes_comments_str :: "ucd \<Rightarrow> ustring \<Rightarrow> ustring option \<times> ustring option" where
  "extract_likes_comments_str u text =
     (let likes_match = rx_search u number_rx (lit '' Likes'') text;
          comments_match = rx_search u number_rx (lit '' Comments'') text
      in (likes_match, comments_match))"

text \<open>
  The values of a record hold strings of characters below 256. On those the Unicode
  tables are these: the decimal digits are 0 to 9, and the letters with a lowercase form
  are A to Z and, but for the multiplication sign, the letters from 0xC0 to 0xDE.
\<close>

definition latin1 :: ucd where
  "latin1 =
     \<lparr>is_decimal = (\<lambda>c. 0x30 \<le> c \<and> c \<le> 0x39),
      to_lower = (\<lambda>c. if (0x41 \<le> c \<and> c \<le> 0x5A) \<or> (0xC0 \<le> c \<and> c \<le> 0xDE \<and> c \<noteq> 0xD7)
                        then c + 0x20 else c)\<rparr>"

definition group_or_none :: "ustring option \<Rightarrow> pyval" where
  "group_or_none m = (case m of None \<Rightarrow> PNone | Some w \<Rightarrow> PStr (chars w))"

text \<open>
  \<^verbatim>\<open>extract_likes_comments\<close> on a value of a record. A text that is not a string makes
  \<^verbatim>\<open>search\<close> raise TypeError.
\<close>

definition extract_likes_comments :: "pyval \<Rightarrow> pyerr + (pyval \<times> pyval)" where
  "extract_likes_comments text =
     (case text of
        PStr t \<Rightarrow>
          (case extract_likes_comments_str latin1 (codes t) of
             (likes, comments) \<Rightarrow> Inr (group_or_none likes, group_or_none comments))
      | _ \<Rightarrow> Inl TypeError)"

section \<open>Formatting a value in an f-string\<close>

text \<open>
  \<^verbatim>\<open>f'{v}'\<close> is \<^verbatim>\<open>str(v)\<close>: a string is itself, the null value is \<^verbatim>\<open>None\<close>, a list is
  the \<^verbatim>\<open>repr\<close> of its elements between brackets.
\<close>

definition hex_digit :: "nat \<Rightarrow> char" where
  "hex_digit n = ''0123456789abcdef'' ! (n mod 16)"

definition py_printable :: "char \<Rightarrow> bool" where
  "py_printable c =
     (let n = (of_char c :: nat) in (32 \<le> n \<and> n < 127) \<or> (161 \<le> n \<and> n \<noteq> 173))"

definition repr_char :: "char \<Rightarrow> char \<Rightarrow> string" where
  "repr_char q c =
     (if c = q \<or> c = CHR 0x5C then [CHR 0x5C, c]
      else if c = CHR 0x09 then [CHR 0x5C, CHR ''t'']
      else if c = CHR 0x0A then [CHR 0x5C, CHR ''n'']
      else if c = CHR 0x0D then [CHR 0x5C, CHR ''r'']
      else if \<not> py_printable c then
        [CHR 0x5C, CHR ''x'', hex_digit (of_char c div 16), hex_digit (of_char c)]
      else [c])"

definition py_repr_str :: "string \<Rightarrow> string" where
  "py_repr_str s =
     (let q = (if CHR 0x27 \<in> set s \<and> CHR 0x22 \<notin> set s then CHR 0x22 else CHR 0x27)
      in [q] @ concat (map (repr_char q) s) @ [q])"

fun py_str :: "pyval \<Rightarrow> string" where
  "py_str PNone = ''None''"
| "py_str (PStr s) = s"
| "py_str (PList ws) = ''['' @ join '', '' (map py_repr_str ws) @ '']''"

fun truthy :: "pyval \<Rightarrow> bool" where
  "truthy PNone = False"
| "truthy (PStr s) = (s \<noteq> [])"
| "truthy (PList ws) = (ws \<noteq> [])"

text \<open>\<^verbatim>\<open>', '.join(v)\<close> iterates a list by element and a string by character.\<close>

fun join_value :: "pyval \<Rightarrow> pyerr + string" where
  "join_value PNone = Inl TypeError"
| "join_value (PStr s) = Inr (join '', '' (map (\<lambda>c. [c]) s))"
| "join_value (PList ws) = Inr (join '', '' ws)"

section \<open>Record normalizers\<close>

text \<open>\<^verbatim>\<open>link.split\<close> exists only on a string.\<close>

definition author_post_id_of :: "pyval \<Rightarrow> pyerr + (string \<times> string \<times> string)" where
  "author_post_id_of link =
     (case link of PStr l \<Rightarrow> extract_author_post_id l | _ \<Rightarrow> Inl AttributeError)"

definition highlighted_words :: "entry \<Rightarrow> pyerr + pyval" where
  "highlighted_words e =
     (if truthy (dict_get e ''snippet_highlighted_words'' PNone)
      then (case join_value (dict_get e ''snippet_highlighted_words'' (PList [])) of
              Inl err \<Rightarrow> Inl err | Inr s \<Rightarrow> Inr (PStr s))
      else Inr PNone)"

definition get_items_from_search_results :: "entry \<Rightarrow> pyerr + pyval list" where
  "get_items_from_search_results e =
     (let title = dict_get e ''title'' (PStr []);
          snippet = dict_get e ''snippet'' (PStr []);
          link = dict_get e ''link'' (PStr [])
      in case extract_likes_comments snippet of
           Inl err \<Rightarrow> Inl err
         | Inr (likes, comments) \<Rightarrow>
             (let title_snippet = py_str title @ '' '' @ py_str snippet
              in case author_post_id_of link of
                   Inl err \<Rightarrow> Inl err
                 | Inr (author, link_to_author, post_id) \<Rightarrow>
                     (case highlighted_words e of
                        Inl err \<Rightarrow> Inl err
                      | Inr words \<Rightarrow>
                          Inr [dict_get e ''source'' PNone,
                               dict_get e ''title'' PNone,
                               dict_get e ''snippet'' PNone,
                               dict_get e ''link'' PNone,
                               dict_get e ''thumbnail'' PNone,
                               dict_get e ''video_link'' PNone,
                               words,
                               dict_get e ''displayed_link'' PNone,
                               PStr title_snippet,
                               likes,
                               comments,
                               PStr author,
                               PStr link_to_author,
                               PStr post_id])))"

definition get_items_from_images_results :: "entry \<Rightarrow> pyerr + pyval list" where
  "get_items_from_images_results e =
     (let link = dict_get e ''link'' (PStr [])
      in case author_post_id_of link of
           Inl err \<Rightarrow> Inl err
         | Inr (author, link_to_author, post_id) \<Rightarrow>
             Inr [dict_get e ''source'' PNone,
                  dict_get e ''title'' PNone,
                  dict_get e ''link'' PNone,
                  dict_get e ''thumbnail'' PNone,
                  PStr author,
                  PStr link_to_author,
                  PStr post_id])"

definition get_items_from_related_content :: "entry \<Rightarrow> pyerr + pyval list" where
  "get_items_from_related_content e =
     Inr [dict_get e ''source'' PNone,
          dict_get e ''link'' PNone,
          dict_get e ''thumbnail'' PNone,
          dict_get e ''title'' PNone]"

section \<open>The store\<close>

text \<open>
  The SQLite file as the program sees it: a map from table names to tables. A table has
  its column names, its rows (each row pairs every column with its value) and the
  counter that AUTOINCREMENT keeps for \<^verbatim>\<open>record_id\<close>.
\<close>

datatype sqlval = Null | Text string | Integer int

type_synonym sqlrow = "(string \<times> sqlval) list"

record table =
  columns :: "string list"
  rows :: "sqlrow list"
  seq :: int

type_synonym database = "string \<rightharpoonup> table"

text \<open>A data frame, and a CSV file written from it: the header and the rows of cells.\<close>

type_synonym frame = "string list \<times> sqlval list list"

text \<open>
  The world outside the program: whether \<^verbatim>\<open>sqlite3.connect\<close> succeeds, whether the file
  is a usable database (when it is not, every statement raises \<^verbatim>\<open>sqlite3.Error\<close>), the
  committed tables, the files of the output directory and the lines printed so far.
\<close>

record world =
  can_connect :: bool
  db_valid :: bool
  committed :: database
  files :: "string \<rightharpoonup> frame"
  stdout :: "string list"

text \<open>
  A connection works on its own copy of the tables; \<^verbatim>\<open>commit\<close> makes the copy durable
  and \<^verbatim>\<open>close\<close> drops whatever was not committed.
\<close>

record conn =
  valid :: bool
  durable :: database
  working :: database

definition print_line :: "string \<Rightarrow> world \<Rightarrow> world" where
  "print_line msg w = w\<lparr>stdout := stdout w @ [msg]\<rparr>"

definition create_sql_connection :: "world \<Rightarrow> conn option \<times> world" where
  "create_sql_connection w =
     (if can_connect w
      then (Some \<lparr>valid = db_valid w, durable = committed w, working = committed w\<rparr>, w)
      else (None, print_line ''An error occurred: unable to open database file'' w))"

definition conn_commit :: "conn \<Rightarrow> conn" where
  "conn_commit c = c\<lparr>durable := working c\<rparr>"

definition conn_close :: "conn \<Rightarrow> world \<Rightarrow> world" where
  "conn_close c w = w\<lparr>committed := durable c\<rparr>"

text \<open>\<^verbatim>\<open>CREATE TABLE IF NOT EXISTS name (cols)\<close>\<close>

definition sql_create_table :: "string \<Rightarrow> string list \<Rightarrow> conn \<Rightarrow> string + conn" where
  "sql_create_table name cols c =
     (if \<not> valid c then Inl ''file is not a database''
      else (case working c name of
              Some t \<Rightarrow> Inr c
            | None \<Rightarrow>
                Inr (c\<lparr>working := (working c)(name \<mapsto> \<lparr>columns = cols, rows = [], seq = 0\<rparr>)\<rparr>)))"

text \<open>Binding a parameter: null and strings are supported, a list is not.\<close>

fun bind_param :: "pyval \<Rightarrow> sqlval option" where
  "bind_param PNone = Some Null"
| "bind_param (PStr s) = Some (Text s)"
| "bind_param (PList ws) = None"

fun bind_params :: "pyval list \<Rightarrow> sqlval list option" where
  "bind_params [] = Some []"
| "bind_params (p # ps) =
     (case bind_param p of
        None \<Rightarrow> None
      | Some v \<Rightarrow> (case bind_params ps of None \<Rightarrow> None | Some vs \<Rightarrow> Some (v # vs)))"

definition new_row :: "string list \<Rightarrow> int \<Rightarrow> (string \<times> sqlval) list \<Rightarrow> sqlrow" where
  "new_row cols rid given =
     map (\<lambda>c. (c, if c = ''record_id'' then Integer rid
                   else (case map_of given c of None \<Rightarrow> Null | Some v \<Rightarrow> v))) cols"

text \<open>
  \<^verbatim>\<open>INSERT INTO name (cols) VALUES (?, ...)\<close> with the parameters \<open>params\<close>: the statement
  is compiled against the schema first, then the parameters are bound.
\<close>

definition sql_insert :: "string \<Rightarrow> string list \<Rightarrow> pyval list \<Rightarrow> conn \<Rightarrow> string + conn" where
  "sql_insert name cols params c =
     (if \<not> valid c then Inl ''file is not a database''
      else (case working c name of
              None \<Rightarrow> Inl (''no such table: '' @ name)
            | Some t \<Rightarrow>
                if \<not> set cols \<subseteq> set (columns t)
                then Inl (''table '' @ name @ '' has no such column'')
                else (case bind_params params of
                        None \<Rightarrow> Inl ''Error binding parameter: type is not supported''
                      | Some vs \<Rightarrow>
                          (let rid = seq t + 1;
                               r = new_row (columns t) rid (zip cols vs)
                           in Inr (c\<lparr>working :=
                                 (working c)(name \<mapsto> t\<lparr>rows := rows t @ [r], seq := rid\<rparr>)\<rparr>)))))"

definition cell :: "sqlrow \<Rightarrow> string \<Rightarrow> sqlval" where
  "cell r c = (case map_of r c of None \<Rightarrow> Null | Some v \<Rightarrow> v)"


text \<open>\<^verbatim>\<open>SELECT col FROM name\<close>\<close>

definition sql_select_column :: "string \<Rightarrow> string \<Rightarrow> conn \<Rightarrow> string + sqlval list" where
  "sql_select_column col name c =
     (if \<not> valid c then Inl ''file is not a database''
      else (case working c name of
              None \<Rightarrow> Inl (''no such table: '' @ name)
            | Some t \<Rightarrow>
                if col \<notin> set (columns t) then Inl (''no such column: '' @ col)
                else Inr (map (\<lambda>r. cell r col) (rows t))))"

text \<open>
  \<^verbatim>\<open>SELECT col FROM a UNION SELECT col FROM b\<close>: the values of both, duplicates removed.
  SQL leaves the order of the result open; the model keeps the first occurrences.
\<close>

definition sql_select_union :: "string \<Rightarrow> string \<Rightarrow> string \<Rightarrow> conn \<Rightarrow> string + sqlval list" where
  "sql_select_union col a b c =
     (case sql_select_column col a c of
        Inl err \<Rightarrow> Inl err
      | Inr xs \<Rightarrow>
          (case sql_select_column col b c of
             Inl err \<Rightarrow> Inl err
           | Inr ys \<Rightarrow> Inr (remdups (xs @ ys))))"

section \<open>SQLDatabaseManager\<close>

definition search_results_columns :: "string list" where
  "search_results_columns =
     [''source'', ''title'', ''snippet'', ''link'', ''thumbnail'', ''video_link'',
      ''snippet_highlighted_words'', ''displayed_link'', ''title_snippet'', ''likes'',
      ''comments'', ''author'', ''link_to_author'', ''post_id'']"

definition images_results_columns :: "string list" where
  "images_results_columns =
     [''source'', ''title'', ''link'', ''thumbnail'', ''author'', ''link_to_author'',
      ''post_id'']"

definition related_content_columns :: "string list" where
  "related_content_columns = [''source'', ''link'', ''thumbnail'', ''title'']"

text \<open>
  The three table-creating methods have the same body: connect; execute the statement and
  commit inside \<^verbatim>\<open>try\<close>; print on \<^verbatim>\<open>sqlite3.Error\<close>; close in \<^verbatim>\<open>finally\<close>.
\<close>

definition create_table :: "string \<Rightarrow> string list \<Rightarrow> world \<Rightarrow> world" where
  "create_table name cols w =
     (case create_sql_connection w of
        (Some c, w1) \<Rightarrow>
          (case sql_create_table name (''record_id'' # cols) c of
             Inr c' \<Rightarrow> conn_close (conn_commit c') w1
           | Inl m \<Rightarrow> conn_close c (print_line (''An error occurred: '' @ m) w1))
      | (None, w1) \<Rightarrow> print_line ''Failed to create the database connection.'' w1)"

definition create_search_results_table :: "world \<Rightarrow> world" where
  "create_search_results_table = create_table ''query_search_results'' search_results_columns"

definition create_images_results_table :: "world \<Rightarrow> world" where
  "create_images_results_table = create_table ''images_results'' images_results_columns"

definition create_related_content_table :: "world \<Rightarrow> world" where
  "create_related_content_table = create_table ''related_content'' related_content_columns"

text \<open>\<^verbatim>\<open>__init__\<close>\<close>

definition init :: "world \<Rightarrow> world" where
  "init w =
     create_related_content_table (create_images_results_table (create_search_results_table w))"

text \<open>
  The body of \<^verbatim>\<open>for entry in data\<close>: normalize, execute the insert, commit. Whatever is
  raised leaves the loop; the value is the connection as it is then and the exception.
\<close>

fun insert_loop ::
  "string \<Rightarrow> string list \<Rightarrow> (entry \<Rightarrow> pyerr + pyval list) \<Rightarrow> conn \<Rightarrow> entry list
     \<Rightarrow> conn \<times> pyerr option" where
  "insert_loop name cols norm c [] = (c, None)"
| "insert_loop name cols norm c (e # es) =
     (case norm e of
        Inl err \<Rightarrow> (c, Some err)
      | Inr params \<Rightarrow>
          (case sql_insert name cols params c of
             Inl m \<Rightarrow> (c, Some (SqliteError m))
           | Inr c' \<Rightarrow> insert_loop name cols norm (conn_commit c') es))"

text \<open>
  The three inserting methods: the loop is inside \<^verbatim>\<open>try\<close>; \<^verbatim>\<open>except Error\<close> prints,
  any other exception goes on to the caller; \<^verbatim>\<open>finally\<close> closes the connection. The
  value is the world afterwards and the exception the caller sees, if any.
\<close>

definition insert_rows ::
  "string \<Rightarrow> string list \<Rightarrow> (entry \<Rightarrow> pyerr + pyval list) \<Rightarrow> world \<Rightarrow> entry list
     \<Rightarrow> world \<times> pyerr option" where
  "insert_rows name cols norm w data =
     (case create_sql_connection w of
        (Some c, w1) \<Rightarrow>
          (case insert_loop name cols norm c data of
             (c', None) \<Rightarrow> (conn_close c' w1, None)
           | (c', Some (SqliteError m)) \<Rightarrow>
               (conn_close c'
                  (print_line (''An error occurred while inserting data: '' @ m) w1), None)
           | (c', Some err) \<Rightarrow> (conn_close c' w1, Some err))
      | (None, w1) \<Rightarrow> (print_line ''Failed to create the database connection.'' w1, None))"

definition insert_search_results :: "world \<Rightarrow> entry list \<Rightarrow> world \<times> pyerr option" where
  "insert_search_results =
     insert_rows ''query_search_results'' search_results_columns get_items_from_search_results"

definition insert_images_results :: "world \<Rightarrow> entry list \<Rightarrow> world \<times> pyerr option" where
  "insert_images_results =
     insert_rows ''images_results'' images_results_columns get_items_from_images_results"

definition insert_related_content :: "world \<Rightarrow> entry list \<Rightarrow> world \<times> pyerr option" where
  "insert_related_content =
     insert_rows ''related_content'' related_content_columns get_items_from_related_content"








definition get_collected_videos :: "world \<Rightarrow> sqlval list \<times> world" where
  "get_collected_videos w =
     (case create_sql_connection w of
        (Some c, w1) \<Rightarrow>
          (case sql_select_union ''link'' ''query_search_results'' ''images_results'' c of
             Inr data \<Rightarrow> (data, conn_close c w1)
           | Inl m \<Rightarrow>
               ([], conn_close c
                      (print_line (''An error occurred while inserting data: '' @ m) w1)))
      | (None, w1) \<Rightarrow> ([], w1))"

section \<open>The specification's words\<close>

text \<open>
  The specification describes the author as the fourth segment with the leading \<^verbatim>\<open>@\<close>
  stripped, and the links it expects as \<^verbatim>\<open>https://<host>/@<author>/.../<post_id>\<close>.
\<close>

definition spec_strip_leading_at :: "string \<Rightarrow> string" where
  "spec_strip_leading_at seg = (case seg of [] \<Rightarrow> [] | c # r \<Rightarrow> if c = CHR ''@'' then r else seg)"

definition spec_conforming_link :: "string \<Rightarrow> bool" where
  "spec_conforming_link link =
     (let segs = split_on CHR ''/'' link
      in 5 \<le> length segs \<and> segs ! 0 = ''https:'' \<and> segs ! 1 = [] \<and> segs ! 2 \<noteq> []
         \<and> take 1 (segs ! 3) = ''@'')"

text \<open>
  The specification describes \<^verbatim>\<open>title_snippet\<close> as the title, one space and the snippet,
  each the empty string when there is none.
\<close>

definition spec_text :: "entry \<Rightarrow> string \<Rightarrow> string" where
  "spec_text e k = (case e k of Some (PStr s) \<Rightarrow> s | _ \<Rightarrow> [])"

definition spec_title_snippet :: "entry \<Rightarrow> string" where
  "spec_title_snippet e = spec_text e ''title'' @ '' '' @ spec_text e ''snippet''"

text \<open>The number of \<^verbatim>\<open>/\<close> characters in a link.\<close>

definition slashes :: "string \<Rightarrow> nat" where
  "slashes link = length (filter (\<lambda>x. x = CHR ''/'') link)"

section \<open>Example worlds\<close>

text \<open>
  A fresh store that can be opened, records with a well-formed link, a record whose
  \<^verbatim>\<open>source\<close> is a list (which SQLite cannot bind), and the links stored in a table.
\<close>

definition w_empty :: world where
  "w_empty = \<lparr>can_connect = True, db_valid = True, committed = Map.empty, files = Map.empty,
              stdout = []\<rparr>"

definition video_entry :: "string \<Rightarrow> entry" where
  "video_entry n = map_of [(''link'', PStr (''https://www.tiktok.com/@u/video/'' @ n))]"

definition list_source_entry :: entry where
  "list_source_entry =
     map_of [(''source'', PList [''ad'']), (''link'', PStr ''https://www.tiktok.com/@u/video/2'')]"

definition w_links :: world where
  "w_links =
     fst (insert_images_results
            (fst (insert_search_results (init w_empty) [video_entry ''1'', video_entry ''2'', video_entry ''1'']))
            [video_entry ''2'', video_entry ''3''])"

definition stored_links :: "string \<Rightarrow> world \<Rightarrow> sqlval list option" where
  "stored_links name w =
     map_option (\<lambda>t. map (\<lambda>r. cell r ''link'') (rows t)) (committed w name)"


section \<open>The specification of the likes and comments search\<close>

text \<open>
  A character of the text is a given character of the word, ignoring case: for a letter,
  its lowercase form is that of the letter, or the dotless i for i, the long s for s;
  any other character has to be the same.
\<close>

definition ci_char :: "ucd \<Rightarrow> nat \<Rightarrow> char \<Rightarrow> bool" where
  "ci_char u c p =
     (let n = (of_char p :: nat);
          lo = (if 0x41 \<le> n \<and> n \<le> 0x5A then n + 0x20 else n)
      in if 0x61 \<le> lo \<and> lo \<le> 0x7A
         then to_lower u c = lo \<or> (lo = 0x69 \<and> to_lower u c = 0x131)
              \<or> (lo = 0x73 \<and> to_lower u c = 0x17F)
         else c = n)"

definition ci_eq :: "ucd \<Rightarrow> ustring \<Rightarrow> string \<Rightarrow> bool" where
  "ci_eq u w word = list_all2 (ci_char u) w word"

text \<open>
  A number, in the specification's words: digits, optionally with thousands separators
  and a decimal point, and an optional trailing K or M. That is a string of decimal
  digits, commas and dots that starts and ends with a digit, possibly followed by one
  letter k or m in either case.
\<close>

definition number_body :: "ucd \<Rightarrow> ustring \<Rightarrow> bool" where
  "number_body u b =
     (b \<noteq> [] \<and> is_decimal u (hd b) \<and> is_decimal u (last b)
      \<and> (\<forall>c\<in>set b. is_decimal u c \<or> c \<in> set (codes '',.'')))"

definition spec_number :: "ucd \<Rightarrow> ustring \<Rightarrow> bool" where
  "spec_number u w =
     (number_body u w
      \<or> (w \<noteq> [] \<and> to_lower u (last w) \<in> set (codes ''km'') \<and> number_body u (butlast w)))"

text \<open>
  An occurrence of a number followed by the word: the text is \<open>pre\<close>, the number
  \<open>w\<close>, one space, the word in any case, and a rest. The value found for a word is
  the number of the leftmost occurrence, or null when there is none.
\<close>

definition spec_occurrence :: "ucd \<Rightarrow> string \<Rightarrow> ustring \<Rightarrow> ustring \<Rightarrow> ustring \<Rightarrow> bool" where
  "spec_occurrence u word text pre w =
     (\<exists>lk post. text = pre @ w @ codes '' '' @ lk @ post \<and> spec_number u w \<and> ci_eq u lk word)"

definition spec_first_match :: "ucd \<Rightarrow> string \<Rightarrow> ustring \<Rightarrow> ustring option \<Rightarrow> bool" where
  "spec_first_match u word text v =
     (case v of
        Some w \<Rightarrow>
          (\<exists>pre. spec_occurrence u word text pre w
             \<and> (\<forall>pre' w'. spec_occurrence u word text pre' w' \<longrightarrow> length pre \<le> length pre'))
      | None \<Rightarrow> (\<forall>pre w. \<not> spec_occurrence u word text pre w))"

text \<open>
  What every build of the tables says of the code points of ASCII, below 128, and of
  those below 256: the decimal digits are 0 to 9; the letters with a lowercase form are
  A to Z and, from 0xC0 to 0xDE but for the multiplication sign, the accented capitals.
\<close>

definition ascii_tables :: "ucd \<Rightarrow> bool" where
  "ascii_tables u =
     (\<forall>c<128. is_decimal u c = (0x30 \<le> c \<and> c \<le> 0x39)
        \<and> to_lower u c = (if 0x41 \<le> c \<and> c \<le> 0x5A then c + 0x20 else c))"

definition latin1_tables :: "ucd \<Rightarrow> bool" where
  "latin1_tables u =
     (\<forall>c<256. is_decimal u c = (0x30 \<le> c \<and> c \<le> 0x39)
        \<and> to_lower u c =
            (if (0x41 \<le> c \<and> c \<le> 0x5A) \<or> (0xC0 \<le> c \<and> c \<le> 0xDE \<and> c \<noteq> 0xD7)
             then c + 0x20 else c))"

text \<open>Two tables agree on a set of code points.\<close>

definition agree :: "ucd \<Rightarrow> ucd \<Rightarrow> nat set \<Rightarrow> bool" where
  "agree u v S = (\<forall>c\<in>S. is_decimal u c = is_decimal v c \<and> to_lower u c = to_lower v c)"

text \<open>The strings a pattern matches, as a set.\<close>

fun lang :: "ucd \<Rightarrow> rx \<Rightarrow> ustring set" where
  "lang u Eps = {[]}"
| "lang u (Cls k) = {[c] | c. cc_match u k c}"
| "lang u (Star k) = {w. \<forall>c\<in>set w. cc_match u k c}"
| "lang u (Plus k) = {w. w \<noteq> [] \<and> (\<forall>c\<in>set w. cc_match u k c)}"
| "lang u (Seq a b) = {x @ y | x y. x \<in> lang u a \<and> y \<in> lang u b}"
| "lang u (Opt a) = insert [] (lang u a)"

section \<open>Splitting a link\<close>

lemma split_on_nonempty: "split_on c s \<noteq> []"
  by (induction s) (auto split: list.splits)

lemma split_on_no_sep: "c \<notin> set a \<Longrightarrow> split_on c a = [a]"
  by (induction a) auto

lemma split_on_append_sep: "c \<notin> set a \<Longrightarrow> split_on c (a @ c # b) = a # split_on c b"
  by (induction a) auto

lemma length_split_on: "length (split_on c s) = Suc (length (filter (\<lambda>x. x = c) s))"
  by (induction s) (auto split: list.splits simp: split_on_nonempty)

lemma split_on_sep_not_single: "split_on c (x @ c # y) \<noteq> [z]"
proof
  assume "split_on c (x @ c # y) = [z]"
  then have "length (split_on c (x @ c # y)) = 1" by simp
  then show False by (simp add: length_split_on)
qed

lemma last_split_on_append_sep: "last (split_on c (x @ c # y)) = last (split_on c y)"
  by (induction x) (auto split: list.splits simp: split_on_nonempty split_on_sep_not_single)

lemma last_split_on_tail: "c \<notin> set p \<Longrightarrow> last (split_on c (x @ c # p)) = p"
  by (simp add: last_split_on_append_sep split_on_no_sep)

lemma extract_shape:
  assumes link: "link = ''https://'' @ host @ ''/'' @ seg @ path @ ''/'' @ pid"
    and host: "CHR ''/'' \<notin> set host"
    and seg: "CHR ''/'' \<notin> set seg"
    and path: "path = [] \<or> hd path = CHR ''/''"
    and pid: "CHR ''/'' \<notin> set pid"
  shows "extract_author_post_id link =
           Inr (remove_char CHR ''@'' seg, ''https://www.tiktok.com/@'' @ remove_char CHR ''@'' seg, pid)"
proof -
  obtain rest where rest: "seg @ path @ ''/'' @ pid = seg @ CHR ''/'' # rest"
    using path by (cases path) auto
  have s1: "split_on CHR ''/'' link = ''https:'' # [] # host # seg # split_on CHR ''/'' rest"
    using host seg rest by (simp add: link split_on_append_sep)
  have l: "last (split_on CHR ''/'' link) = pid"
  proof -
    have "link = (''https://'' @ host @ ''/'' @ seg @ path) @ CHR ''/'' # pid" by (simp add: link)
    then show ?thesis using pid last_split_on_tail by metis
  qed
  have len: "\<not> length (split_on CHR ''/'' link) \<le> 3" by (simp add: s1)
  have n3: "split_on CHR ''/'' link ! 3 = seg" by (simp add: s1 numeral_3_eq_3)
  show ?thesis
    unfolding extract_author_post_id_def Let_def using len n3 l by simp
qed

section \<open>The normalizers\<close>

lemma extract_raises_iff:
  "extract_author_post_id link = Inl IndexError \<longleftrightarrow> slashes link < 3"
  by (auto simp: extract_author_post_id_def Let_def length_split_on slashes_def)

lemma extract_returns:
  "3 \<le> slashes link \<Longrightarrow>
     \<exists>a p. extract_author_post_id link = Inr (a, ''https://www.tiktok.com/@'' @ a, p)"
  by (auto simp: extract_author_post_id_def Let_def length_split_on slashes_def)

lemma extract_cases:
  "extract_author_post_id link = Inl IndexError \<or>
   (\<exists>a p. extract_author_post_id link = Inr (a, ''https://www.tiktok.com/@'' @ a, p))"
  by (auto simp: extract_author_post_id_def Let_def)

lemma likes_comments_str: "\<exists>l c. extract_likes_comments (PStr s) = Inr (l, c)"
  by (simp add: extract_likes_comments_def split: prod.splits)

lemma likes_comments_not_str:
  "extract_likes_comments PNone = Inl TypeError" "extract_likes_comments (PList ws) = Inl TypeError"
  by (simp_all add: extract_likes_comments_def)

lemma highlighted_words_total: "\<exists>v. highlighted_words e = Inr v"
  by (cases "dict_get e ''snippet_highlighted_words'' PNone")
     (auto simp: highlighted_words_def dict_get_def split: option.splits)

lemma highlighted_words_absent:
  "e ''snippet_highlighted_words'' = None \<Longrightarrow> highlighted_words e = Inr PNone"
  by (simp add: highlighted_words_def dict_get_def)

lemma search_results_value:
  assumes "extract_likes_comments (dict_get e ''snippet'' (PStr [])) = Inr (l, c)"
    and "author_post_id_of (dict_get e ''link'' (PStr [])) = Inr (a, la, p)"
    and "highlighted_words e = Inr v"
  shows "get_items_from_search_results e =
     Inr [dict_get e ''source'' PNone, dict_get e ''title'' PNone, dict_get e ''snippet'' PNone,
          dict_get e ''link'' PNone, dict_get e ''thumbnail'' PNone, dict_get e ''video_link'' PNone,
          v, dict_get e ''displayed_link'' PNone,
          PStr (py_str (dict_get e ''title'' (PStr [])) @ '' '' @ py_str (dict_get e ''snippet'' (PStr []))),
          l, c, PStr a, PStr la, PStr p]"
  using assms by (simp add: get_items_from_search_results_def Let_def)

lemma search_results_Inr_D:
  assumes "get_items_from_search_results e = Inr t"
  shows "\<exists>l c a la p v.
           extract_likes_comments (dict_get e ''snippet'' (PStr [])) = Inr (l, c)
         \<and> author_post_id_of (dict_get e ''link'' (PStr [])) = Inr (a, la, p)
         \<and> highlighted_words e = Inr v"
  using assms
  by (auto simp: get_items_from_search_results_def Let_def split: sum.splits prod.splits)

lemma images_results_value:
  assumes "author_post_id_of (dict_get e ''link'' (PStr [])) = Inr (a, la, p)"
  shows "get_items_from_images_results e =
     Inr [dict_get e ''source'' PNone, dict_get e ''title'' PNone, dict_get e ''link'' PNone,
          dict_get e ''thumbnail'' PNone, PStr a, PStr la, PStr p]"
  using assms by (simp add: get_items_from_images_results_def Let_def)

lemma images_results_Inr_D:
  assumes "get_items_from_images_results e = Inr t"
  shows "\<exists>a la p. author_post_id_of (dict_get e ''link'' (PStr [])) = Inr (a, la, p)"
  using assms
  by (auto simp: get_items_from_images_results_def Let_def split: sum.splits prod.splits)

text \<open>
  Claim C10. The defaulting of the SearchResult normalizer covers an absent key only. A
  record whose key \<^verbatim>\<open>snippet\<close> is present and bound to the null value makes
  \<^verbatim>\<open>get_items_from_search_results\<close> raise: the null value reaches the pattern search,
  which raises TypeError, and no tuple is returned.
\<close>

theorem null_snippet_raises:
  "e ''snippet'' = Some PNone \<Longrightarrow> get_items_from_search_results e = Inl TypeError"
  by (simp add: get_items_from_search_results_def Let_def dict_get_def likes_comments_not_str)

theorem null_snippet_raises_witness:
  "get_items_from_search_results
     (map_of [(''link'', PStr ''https://www.tiktok.com/@jane.doe/video/12345''),
              (''snippet'', PNone)]) = Inl TypeError"
  by (rule null_snippet_raises) simp

text \<open>
  Claim C4, as amended. For a link \<^verbatim>\<open>https://<host>/@<author><path>/<post_id>\<close>, where
  host, author and post id contain no \<^verbatim>\<open>/\<close> and the path is empty or starts with
  \<^verbatim>\<open>/\<close>, \<^verbatim>\<open>extract_author_post_id\<close> returns the author with every \<^verbatim>\<open>@\<close> removed,
  the profile link \<^verbatim>\<open>https://www.tiktok.com/@\<close> followed by that author, and the last
  segment as post id. When the author contains no \<^verbatim>\<open>@\<close>, that is the author itself.
\<close>

theorem extract_author_post_id_shape:
  assumes "link = ''https://'' @ host @ ''/@'' @ author @ path @ ''/'' @ post_id"
    and "CHR ''/'' \<notin> set host"
    and "CHR ''/'' \<notin> set author"
    and "path = [] \<or> hd path = CHR ''/''"
    and "CHR ''/'' \<notin> set post_id"
  shows "extract_author_post_id link =
           Inr (remove_char CHR ''@'' author,
                ''https://www.tiktok.com/@'' @ remove_char CHR ''@'' author, post_id)
       \<and> (CHR ''@'' \<notin> set author \<longrightarrow>
            extract_author_post_id link =
              Inr (author, ''https://www.tiktok.com/@'' @ author, post_id))"
proof -
  have l: "link = ''https://'' @ host @ ''/'' @ (CHR ''@'' # author) @ path @ ''/'' @ post_id"
    using assms(1) by simp
  have a: "CHR ''/'' \<notin> set (CHR ''@'' # author)" using assms(3) by simp
  have "extract_author_post_id link =
      Inr (remove_char CHR ''@'' (CHR ''@'' # author),
           ''https://www.tiktok.com/@'' @ remove_char CHR ''@'' (CHR ''@'' # author), post_id)"
    by (rule extract_shape [OF l assms(2) a assms(4) assms(5)])
  moreover have "remove_char CHR ''@'' (CHR ''@'' # author) = remove_char CHR ''@'' author"
    by (simp add: remove_char_def)
  moreover have "CHR ''@'' \<notin> set author \<Longrightarrow> remove_char CHR ''@'' author = author"
    by (induction author) (auto simp: remove_char_def)
  ultimately show ?thesis by simp
qed

theorem extract_author_post_id_shape_witness:
  "extract_author_post_id ''https://www.tiktok.com/@jane.doe/video/12345'' =
     Inr (''jane.doe'', ''https://www.tiktok.com/@jane.doe'', ''12345'')"
  using extract_author_post_id_shape
    [of "''https://www.tiktok.com/@jane.doe/video/12345''" "''www.tiktok.com''" "''jane.doe''"
        "''/video''" "''12345''"]
  by (simp add: remove_char_def)

text \<open>
  Claim C4 as stated fails where the author segment has a second \<^verbatim>\<open>@\<close>: stripping the
  leading one leaves \<^verbatim>\<open>a@b\<close>, the code returns \<^verbatim>\<open>ab\<close>.
\<close>

theorem extract_author_leading_at_counterexample:
  "extract_author_post_id ''https://www.tiktok.com/@a@b/video/1'' \<noteq>
     Inr (spec_strip_leading_at (split_on CHR ''/'' ''https://www.tiktok.com/@a@b/video/1'' ! 3),
          ''https://www.tiktok.com/@''
            @ spec_strip_leading_at (split_on CHR ''/'' ''https://www.tiktok.com/@a@b/video/1'' ! 3),
          last (split_on CHR ''/'' ''https://www.tiktok.com/@a@b/video/1''))"
  by (simp add: extract_author_post_id_def Let_def remove_char_def spec_strip_leading_at_def)

text \<open>
  Claim C3 as stated fails on a link without any \<^verbatim>\<open>@\<close> segment: the link does not have
  the expected shape, yet nothing is raised and the derived fields are filled from it.
\<close>

theorem nonconforming_link_counterexample:
  "\<not> spec_conforming_link ''https://www.tiktok.com/discover/cats''
   \<and> extract_author_post_id ''https://www.tiktok.com/discover/cats'' =
       Inr (''discover'', ''https://www.tiktok.com/@discover'', ''cats'')
   \<and> get_items_from_images_results
        (map_of [(''link'', PStr ''https://www.tiktok.com/discover/cats'')]) =
       Inr [PNone, PNone, PStr ''https://www.tiktok.com/discover/cats'', PNone,
            PStr ''discover'', PStr ''https://www.tiktok.com/@discover'', PStr ''cats'']"
  by (simp add: spec_conforming_link_def extract_author_post_id_def Let_def remove_char_def
      get_items_from_images_results_def author_post_id_of_def dict_get_def)

lemma author_post_id_of_cases:
  "author_post_id_of v = Inl IndexError \<or> author_post_id_of v = Inl AttributeError \<or>
   (\<exists>a p. author_post_id_of v = Inr (a, ''https://www.tiktok.com/@'' @ a, p))"
  using extract_cases by (cases v) (auto simp: author_post_id_of_def)

lemma search_results_derived:
  assumes "get_items_from_search_results e = Inr t"
  shows "\<exists>a la p. author_post_id_of (dict_get e ''link'' (PStr [])) = Inr (a, la, p)
            \<and> drop 11 t = [PStr a, PStr la, PStr p]"
proof -
  obtain l c a la p v where
    h: "extract_likes_comments (dict_get e ''snippet'' (PStr [])) = Inr (l, c)"
       "author_post_id_of (dict_get e ''link'' (PStr [])) = Inr (a, la, p)"
       "highlighted_words e = Inr v"
    using search_results_Inr_D [OF assms] by blast
  have "drop 11 t = [PStr a, PStr la, PStr p]"
    using search_results_value [OF h] assms by (simp add: numeral_eq_Suc)
  then show ?thesis using h(2) by blast
qed

lemma images_results_derived:
  assumes "get_items_from_images_results e = Inr t"
  shows "\<exists>a la p. author_post_id_of (dict_get e ''link'' (PStr [])) = Inr (a, la, p)
            \<and> drop 4 t = [PStr a, PStr la, PStr p]"
proof -
  obtain a la p where h: "author_post_id_of (dict_get e ''link'' (PStr [])) = Inr (a, la, p)"
    using images_results_Inr_D [OF assms] by blast
  have "drop 4 t = [PStr a, PStr la, PStr p]"
    using images_results_value [OF h] assms by (simp add: numeral_eq_Suc)
  then show ?thesis using h by blast
qed

lemma short_link_search_raises:
  assumes "e ''link'' = Some (PStr link)" and "slashes link < 3"
  shows "\<exists>err. get_items_from_search_results e = Inl err"
proof (cases "get_items_from_search_results e")
  case (Inl err)
  then show ?thesis by blast
next
  case (Inr t)
  then obtain a la p where "author_post_id_of (dict_get e ''link'' (PStr [])) = Inr (a, la, p)"
    using search_results_derived by blast
  then have "extract_author_post_id link = Inr (a, la, p)"
    using assms(1) by (simp add: dict_get_def author_post_id_of_def)
  then show ?thesis using assms(2) extract_raises_iff [of link] by simp
qed

lemma short_link_images_raises:
  assumes "e ''link'' = Some (PStr link)" and "slashes link < 3"
  shows "get_items_from_images_results e = Inl IndexError"
  using assms extract_raises_iff [of link]
  by (simp add: get_items_from_images_results_def Let_def dict_get_def author_post_id_of_def)

text \<open>
  Claim C3, as amended. The derivation raises exactly when the link has fewer than three
  \<^verbatim>\<open>/\<close> characters, that is fewer than four segments; any other string, of the
  expected shape or not, yields an author, a profile link and a post id. A record whose
  link is such a short string makes both normalizers raise. When a normalizer returns, its
  last three fields are strings, never null, and they are the same for two records with
  the same \<^verbatim>\<open>link\<close>, whatever the other fields are.
\<close>

theorem author_derivation_from_link:
  "(extract_author_post_id link = Inl IndexError \<longleftrightarrow> slashes link < 3)
   \<and> (3 \<le> slashes link \<longrightarrow>
        (\<exists>a p. extract_author_post_id link = Inr (a, ''https://www.tiktok.com/@'' @ a, p)))
   \<and> (e ''link'' = Some (PStr link) \<and> slashes link < 3 \<longrightarrow>
        (\<exists>err. get_items_from_search_results e = Inl err)
        \<and> get_items_from_images_results e = Inl IndexError)
   \<and> (get_items_from_search_results e = Inr t \<longrightarrow>
        (\<exists>a la p. drop 11 t = [PStr a, PStr la, PStr p]))
   \<and> (get_items_from_images_results e = Inr t \<longrightarrow>
        (\<exists>a la p. drop 4 t = [PStr a, PStr la, PStr p]))
   \<and> (e ''link'' = e' ''link'' \<and> get_items_from_search_results e = Inr t
        \<and> get_items_from_search_results e' = Inr t' \<longrightarrow> drop 11 t = drop 11 t')
   \<and> (e ''link'' = e' ''link'' \<and> get_items_from_images_results e = Inr t
        \<and> get_items_from_images_results e' = Inr t' \<longrightarrow> drop 4 t = drop 4 t')"
proof (intro conjI impI)
  show "extract_author_post_id link = Inl IndexError \<longleftrightarrow> slashes link < 3"
    by (rule extract_raises_iff)
next
  assume "3 \<le> slashes link"
  then show "\<exists>a p. extract_author_post_id link = Inr (a, ''https://www.tiktok.com/@'' @ a, p)"
    by (rule extract_returns)
next
  assume "e ''link'' = Some (PStr link) \<and> slashes link < 3"
  then show "\<exists>err. get_items_from_search_results e = Inl err"
    using short_link_search_raises by blast
next
  assume "e ''link'' = Some (PStr link) \<and> slashes link < 3"
  then show "get_items_from_images_results e = Inl IndexError"
    using short_link_images_raises by blast
next
  assume "get_items_from_search_results e = Inr t"
  then show "\<exists>a la p. drop 11 t = [PStr a, PStr la, PStr p]"
    using search_results_derived by blast
next
  assume "get_items_from_images_results e = Inr t"
  then show "\<exists>a la p. drop 4 t = [PStr a, PStr la, PStr p]"
    using images_results_derived by blast
next
  assume h: "e ''link'' = e' ''link'' \<and> get_items_from_search_results e = Inr t
        \<and> get_items_from_search_results e' = Inr t'"
  then have "dict_get e ''link'' (PStr []) = dict_get e' ''link'' (PStr [])"
    by (simp add: dict_get_def)
  then show "drop 11 t = drop 11 t'"
    using h search_results_derived [of e t] search_results_derived [of e' t'] by auto
next
  assume h: "e ''link'' = e' ''link'' \<and> get_items_from_images_results e = Inr t
        \<and> get_items_from_images_results e' = Inr t'"
  then have "dict_get e ''link'' (PStr []) = dict_get e' ''link'' (PStr [])"
    by (simp add: dict_get_def)
  then show "drop 4 t = drop 4 t'"
    using h images_results_derived [of e t] images_results_derived [of e' t'] by auto
qed

theorem author_derivation_from_link_witness:
  "extract_author_post_id ''tiktok.com/@jane'' = Inl IndexError
   \<and> get_items_from_images_results (map_of [(''link'', PStr ''tiktok.com/@jane'')])
        = Inl IndexError
   \<and> (\<exists>a p. extract_author_post_id ''https://www.tiktok.com/@jane.doe/video/12345'' =
          Inr (a, ''https://www.tiktok.com/@'' @ a, p))"
proof -
  have s: "slashes ''tiktok.com/@jane'' < 3" by (simp add: slashes_def)
  have g: "3 \<le> slashes ''https://www.tiktok.com/@jane.doe/video/12345''"
    by (simp add: slashes_def)
  have e: "map_of [(''link'', PStr ''tiktok.com/@jane'')] ''link'' = Some (PStr ''tiktok.com/@jane'')"
    by simp
  show ?thesis
    using s g e
      author_derivation_from_link [of "''tiktok.com/@jane''"
        "map_of [(''link'', PStr ''tiktok.com/@jane'')]" "[]" "Map.empty" "[]"]
      author_derivation_from_link [of "''https://www.tiktok.com/@jane.doe/video/12345''"
        "Map.empty" "[]" "Map.empty" "[]"]
    by blast
qed

lemma related_content_value:
  "get_items_from_related_content e =
     Inr [dict_get e ''source'' PNone, dict_get e ''link'' PNone,
          dict_get e ''thumbnail'' PNone, dict_get e ''title'' PNone]"
  by (simp add: get_items_from_related_content_def)

lemma less_8_cases: "i < (8::nat) \<Longrightarrow> i = 0 \<or> i = 1 \<or> i = 2 \<or> i = 3 \<or> i = 4 \<or> i = 5 \<or> i = 6 \<or> i = 7"
  by arith

lemma less_4_cases: "i < (4::nat) \<Longrightarrow> i = 0 \<or> i = 1 \<or> i = 2 \<or> i = 3"
  by arith

lemma dict_get_absent: "e k = None \<Longrightarrow> dict_get e k d = d"
  by (simp add: dict_get_def)

lemma search_tuple_absent:
  assumes "i < 8" and "e (search_results_columns ! i) = None"
    and "highlighted_words e = Inr v" and "e ''snippet_highlighted_words'' = None \<longrightarrow> v = PNone"
  shows "[dict_get e ''source'' PNone, dict_get e ''title'' PNone, dict_get e ''snippet'' PNone,
          dict_get e ''link'' PNone, dict_get e ''thumbnail'' PNone, dict_get e ''video_link'' PNone,
          v, dict_get e ''displayed_link'' PNone, x8, x9, x10, x11, x12, x13] ! i = PNone"
  using less_8_cases [OF assms(1)] assms(2,4)
  by (elim disjE) (simp_all add: search_results_columns_def dict_get_absent numeral_eq_Suc)

lemma images_tuple_absent:
  assumes "i < 4" and "e (images_results_columns ! i) = None"
  shows "[dict_get e ''source'' PNone, dict_get e ''title'' PNone, dict_get e ''link'' PNone,
          dict_get e ''thumbnail'' PNone, x4, x5, x6] ! i = PNone"
  using less_4_cases [OF assms(1)] assms(2)
  by (elim disjE) (simp_all add: images_results_columns_def dict_get_absent numeral_eq_Suc)

lemma related_tuple_absent:
  assumes "i < 4" and "e (related_content_columns ! i) = None"
  shows "[dict_get e ''source'' PNone, dict_get e ''link'' PNone,
          dict_get e ''thumbnail'' PNone, dict_get e ''title'' PNone] ! i = PNone"
  using less_4_cases [OF assms(1)] assms(2)
  by (elim disjE) (simp_all add: related_content_columns_def dict_get_absent numeral_eq_Suc)

text \<open>
  Claim C2, as amended. For a record whose \<^verbatim>\<open>link\<close> is a string with at least four
  segments and whose \<^verbatim>\<open>snippet\<close> is absent or a string, the SearchResult normalizer
  returns a tuple of 14 fields and the ImageResult normalizer one of 7; the RelatedContent
  normalizer returns a tuple of 4 fields for every record. In each tuple a field that is
  copied from the record is null when its key is absent.
\<close>

theorem normalizers_absent_keys_null:
  assumes link: "e ''link'' = Some (PStr link)" and shape: "3 \<le> slashes link"
    and snippet: "e ''snippet'' = None \<or> (\<exists>s. e ''snippet'' = Some (PStr s))"
  shows "(\<exists>t. get_items_from_search_results e = Inr t \<and> length t = 14
             \<and> (\<forall>i<8. e (search_results_columns ! i) = None \<longrightarrow> t ! i = PNone))
       \<and> (\<exists>t. get_items_from_images_results e = Inr t \<and> length t = 7
             \<and> (\<forall>i<4. e (images_results_columns ! i) = None \<longrightarrow> t ! i = PNone))
       \<and> (\<exists>t. get_items_from_related_content e' = Inr t \<and> length t = 4
             \<and> (\<forall>i<4. e' (related_content_columns ! i) = None \<longrightarrow> t ! i = PNone))"
proof (intro conjI)
  obtain a p where ap: "extract_author_post_id link = Inr (a, ''https://www.tiktok.com/@'' @ a, p)"
    using extract_returns [OF shape] by blast
  then have au: "author_post_id_of (dict_get e ''link'' (PStr [])) =
      Inr (a, ''https://www.tiktok.com/@'' @ a, p)"
    using link by (simp add: dict_get_def author_post_id_of_def)
  obtain s where s: "dict_get e ''snippet'' (PStr []) = PStr s"
    using snippet by (auto simp: dict_get_def)
  obtain l c where lc: "extract_likes_comments (dict_get e ''snippet'' (PStr [])) = Inr (l, c)"
    using likes_comments_str [of s] s by auto
  obtain v where v: "highlighted_words e = Inr v"
    using highlighted_words_total by blast
  have v0: "e ''snippet_highlighted_words'' = None \<longrightarrow> v = PNone"
    using v highlighted_words_absent [of e] by auto
  show "\<exists>t. get_items_from_search_results e = Inr t \<and> length t = 14
             \<and> (\<forall>i<8. e (search_results_columns ! i) = None \<longrightarrow> t ! i = PNone)"
    unfolding search_results_value [OF lc au v]
    using search_tuple_absent [OF _ _ v v0] by simp
  show "\<exists>t. get_items_from_images_results e = Inr t \<and> length t = 7
             \<and> (\<forall>i<4. e (images_results_columns ! i) = None \<longrightarrow> t ! i = PNone)"
    unfolding images_results_value [OF au]
    using images_tuple_absent by simp
  show "\<exists>t. get_items_from_related_content e' = Inr t \<and> length t = 4
             \<and> (\<forall>i<4. e' (related_content_columns ! i) = None \<longrightarrow> t ! i = PNone)"
    unfolding related_content_value
    using related_tuple_absent by simp
qed

text \<open>
  Claim C2 as stated fails on a record with a well-formed link whose \<^verbatim>\<open>snippet\<close> key is
  present and null: the normalizer raises TypeError.
\<close>

theorem null_snippet_counterexample:
  "get_items_from_search_results
     (map_of [(''title'', PStr ''Dance''),
              (''snippet'', PNone),
              (''link'', PStr ''https://www.tiktok.com/@jane.doe/video/12345'')])
   = Inl TypeError"
  by (simp add: get_items_from_search_results_def Let_def dict_get_def extract_likes_comments_def)

text \<open>
  Claim C6, as amended. Whenever the SearchResult normalizer returns, the field
  \<^verbatim>\<open>title_snippet\<close> (position 8) is a string, never null, and the snippet is absent or a
  string. When the title is absent or a string as well, the field is the title, one space
  and the snippet, each taken as the empty string when its key is absent; with both keys
  absent it is the one-space string.
\<close>

theorem title_snippet_of_string_title:
  assumes "get_items_from_search_results e = Inr t"
  shows "(\<exists>s. t ! 8 = PStr s)
       \<and> t ! 8 \<noteq> PNone
       \<and> search_results_columns ! 8 = ''title_snippet''
       \<and> (e ''snippet'' = None \<or> (\<exists>b. e ''snippet'' = Some (PStr b)))
       \<and> (e ''title'' = None \<or> (\<exists>a. e ''title'' = Some (PStr a))
            \<longrightarrow> t ! 8 = PStr (spec_title_snippet e))
       \<and> (\<forall>a b. e ''title'' = Some (PStr a) \<and> e ''snippet'' = Some (PStr b)
                \<longrightarrow> t ! 8 = PStr (a @ '' '' @ b))
       \<and> (e ''title'' = None \<and> e ''snippet'' = None \<longrightarrow> t ! 8 = PStr '' '')"
proof -
  obtain l c a la p v where
    h: "extract_likes_comments (dict_get e ''snippet'' (PStr [])) = Inr (l, c)"
       "author_post_id_of (dict_get e ''link'' (PStr [])) = Inr (a, la, p)"
       "highlighted_words e = Inr v"
    using search_results_Inr_D [OF assms] by blast
  have t8: "t ! 8 = PStr (py_str (dict_get e ''title'' (PStr [])) @ '' '' @
                          py_str (dict_get e ''snippet'' (PStr [])))"
    using search_results_value [OF h] assms by (auto simp: numeral_eq_Suc)
  have sn: "e ''snippet'' = None \<or> (\<exists>b. e ''snippet'' = Some (PStr b))"
    using h(1) likes_comments_not_str
    by (cases "e ''snippet''"; cases "the (e ''snippet'')") (auto simp: dict_get_def)
  have s: "py_str (dict_get e ''snippet'' (PStr [])) = spec_text e ''snippet''"
    using sn by (auto simp: dict_get_def spec_text_def)
  have ti: "py_str (dict_get e ''title'' (PStr [])) = spec_text e ''title''"
    if "e ''title'' = None \<or> (\<exists>a. e ''title'' = Some (PStr a))"
    using that by (auto simp: dict_get_def spec_text_def)
  have 1: "e ''title'' = None \<or> (\<exists>a. e ''title'' = Some (PStr a))
            \<longrightarrow> t ! 8 = PStr (spec_title_snippet e)"
    using t8 s ti by (simp add: spec_title_snippet_def)
  have 2: "\<forall>a b. e ''title'' = Some (PStr a) \<and> e ''snippet'' = Some (PStr b)
                \<longrightarrow> t ! 8 = PStr (a @ '' '' @ b)"
    using t8 by (simp add: dict_get_def)
  have 3: "e ''title'' = None \<and> e ''snippet'' = None \<longrightarrow> t ! 8 = PStr '' ''"
    using t8 by (simp add: dict_get_def)
  have 4: "search_results_columns ! 8 = ''title_snippet''"
    by (simp add: search_results_columns_def numeral_eq_Suc)
  show ?thesis using t8 sn 1 2 3 4 by simp
qed

text \<open>
  Claim C6 as stated fails on a record whose \<^verbatim>\<open>title\<close> key is present and null: the
  f-string formats the null value as the text \<^verbatim>\<open>None\<close>, so the field is \<^verbatim>\<open>None x\<close>
  and not the title, a space and the snippet.
\<close>

theorem null_title_counterexample:
  "get_items_from_search_results
     (map_of [(''title'', PNone), (''snippet'', PStr ''x''),
              (''link'', PStr ''https://www.tiktok.com/@jane.doe/video/12345'')]) =
   Inr [PNone, PNone, PStr ''x'',
        PStr ''https://www.tiktok.com/@jane.doe/video/12345'', PNone, PNone, PNone, PNone,
        PStr ''None x'', PNone, PNone, PStr ''jane.doe'',
        PStr ''https://www.tiktok.com/@jane.doe'', PStr ''12345'']
   \<and> PStr ''None x'' \<noteq>
       PStr (spec_title_snippet
               (map_of [(''title'', PNone), (''snippet'', PStr ''x''),
                        (''link'', PStr ''https://www.tiktok.com/@jane.doe/video/12345'')]))"
  by code_simp

lemma likes_comments_example: "extract_likes_comments (PStr ''5 Likes'') = Inr (PStr ''5'', PNone)"
  by code_simp

lemma author_post_id_example: "author_post_id_of (PStr ''https://www.tiktok.com/@jane.doe/video/12345'') =
    Inr (''jane.doe'', ''https://www.tiktok.com/@jane.doe'', ''12345'')"
  by (simp add: author_post_id_of_def extract_author_post_id_def Let_def remove_char_def)

theorem title_snippet_of_string_title_witness:
  "get_items_from_search_results
     (map_of [(''title'', PStr ''Dance''), (''snippet'', PStr ''5 Likes''),
              (''link'', PStr ''https://www.tiktok.com/@jane.doe/video/12345'')]) =
   Inr [PNone, PStr ''Dance'', PStr ''5 Likes'',
        PStr ''https://www.tiktok.com/@jane.doe/video/12345'', PNone, PNone, PNone, PNone,
        PStr ''Dance 5 Likes'', PStr ''5'', PNone, PStr ''jane.doe'',
        PStr ''https://www.tiktok.com/@jane.doe'', PStr ''12345'']
   \<and> [PNone, PStr ''Dance'', PStr ''5 Likes'',
    PStr ''https://www.tiktok.com/@jane.doe/video/12345'', PNone, PNone, PNone, PNone,
    PStr ''Dance 5 Likes'', PStr ''5'', PNone, PStr ''jane.doe'',
    PStr ''https://www.tiktok.com/@jane.doe'', PStr ''12345''] ! 8 = PStr ''Dance 5 Likes''"
proof -
  let ?e = "map_of [(''title'', PStr ''Dance''), (''snippet'', PStr ''5 Likes''),
                    (''link'', PStr ''https://www.tiktok.com/@jane.doe/video/12345'')]"
  have e: "get_items_from_search_results ?e =
     Inr [PNone, PStr ''Dance'', PStr ''5 Likes'',
          PStr ''https://www.tiktok.com/@jane.doe/video/12345'', PNone, PNone, PNone, PNone,
          PStr ''Dance 5 Likes'', PStr ''5'', PNone, PStr ''jane.doe'',
          PStr ''https://www.tiktok.com/@jane.doe'', PStr ''12345'']"
    by (simp add: get_items_from_search_results_def Let_def dict_get_def likes_comments_example author_post_id_example
        highlighted_words_def)
  from title_snippet_of_string_title [OF e] e show ?thesis by simp
qed

theorem normalizers_absent_keys_null_witness:
  "(\<exists>t. get_items_from_search_results
          (map_of [(''link'', PStr ''https://www.tiktok.com/@jane.doe/video/12345'')]) = Inr t
        \<and> length t = 14 \<and> t ! 0 = PNone)
   \<and> (\<exists>t. get_items_from_images_results
          (map_of [(''link'', PStr ''https://www.tiktok.com/@jane.doe/video/12345'')]) = Inr t
        \<and> length t = 7 \<and> t ! 0 = PNone)
   \<and> (\<exists>t. get_items_from_related_content Map.empty = Inr t \<and> length t = 4 \<and> t ! 0 = PNone)"
proof -
  let ?e = "map_of [(''link'', PStr ''https://www.tiktok.com/@jane.doe/video/12345'')]"
  have l: "?e ''link'' = Some (PStr ''https://www.tiktok.com/@jane.doe/video/12345'')" by simp
  have g: "3 \<le> slashes ''https://www.tiktok.com/@jane.doe/video/12345''"
    by (simp add: slashes_def)
  have s: "?e ''snippet'' = None \<or> (\<exists>s. ?e ''snippet'' = Some (PStr s))" by simp
  have a: "?e (search_results_columns ! 0) = None" "?e (images_results_columns ! 0) = None"
    "Map.empty (related_content_columns ! 0) = (None :: pyval option)"
    by (simp_all add: search_results_columns_def images_results_columns_def)
  note n = normalizers_absent_keys_null [OF l g s, of Map.empty]
  from n obtain t1 where t1: "get_items_from_search_results ?e = Inr t1" "length t1 = 14"
    "\<forall>i<8. ?e (search_results_columns ! i) = None \<longrightarrow> t1 ! i = PNone" by blast
  from n obtain t2 where t2: "get_items_from_images_results ?e = Inr t2" "length t2 = 7"
    "\<forall>i<4. ?e (images_results_columns ! i) = None \<longrightarrow> t2 ! i = PNone" by blast
  from n obtain t3 where t3: "get_items_from_related_content Map.empty = Inr t3" "length t3 = 4"
    "\<forall>i<4. Map.empty (related_content_columns ! i) = None \<longrightarrow> t3 ! i = PNone" by blast
  have "t1 ! 0 = PNone" using t1(3) a(1) by (metis zero_less_numeral)
  moreover have "t2 ! 0 = PNone" using t2(3) a(2) by (metis zero_less_numeral)
  moreover have "t3 ! 0 = PNone" using t3(3) a(3) by (metis zero_less_numeral)
  ultimately show ?thesis using t1(1,2) t2(1,2) t3(1,2) by blast
qed

section \<open>The store operations\<close>

lemma create_table_eq:
  "create_table name cols w =
     (if can_connect w then
        (if db_valid w then
           (case committed w name of
              Some t \<Rightarrow> w
            | None \<Rightarrow> w\<lparr>committed := (committed w)(name \<mapsto>
                         \<lparr>columns = ''record_id'' # cols, rows = [], seq = 0\<rparr>)\<rparr>)
         else print_line (''An error occurred: '' @ ''file is not a database'') w)
      else print_line ''Failed to create the database connection.''
             (print_line ''An error occurred: unable to open database file'' w))"
  by (auto simp: create_table_def create_sql_connection_def sql_create_table_def conn_close_def
      conn_commit_def print_line_def split: option.splits)

lemma create_table_flags [simp]:
  "can_connect (create_table name cols w) = can_connect w"
  "db_valid (create_table name cols w) = db_valid w"
  "files (create_table name cols w) = files w"
  by (auto simp: create_table_eq print_line_def split: option.splits)

lemma create_table_committed:
  "committed (create_table name cols w) =
     (if can_connect w \<and> db_valid w \<and> committed w name = None
      then (committed w)(name \<mapsto> \<lparr>columns = ''record_id'' # cols, rows = [], seq = 0\<rparr>)
      else committed w)"
  by (auto simp: create_table_eq print_line_def split: option.splits)

lemma create_table_twice:
  "committed (create_table name cols (create_table name cols w)) =
   committed (create_table name cols w)"
  by (simp add: create_table_committed)

lemma create_table_keeps:
  "committed w n = Some t \<Longrightarrow> committed (create_table name cols w) n = Some t"
  by (auto simp: create_table_committed)

lemma create_table_quiet:
  "can_connect w \<Longrightarrow> db_valid w \<Longrightarrow>
     create_table name cols (create_table name cols w) = create_table name cols w"
  by (auto simp: create_table_eq split: option.splits)

lemma create_table_exists:
  "can_connect w \<Longrightarrow> db_valid w \<Longrightarrow> \<exists>t. committed (create_table name cols w) name = Some t"
  by (auto simp: create_table_committed)

text \<open>
  Claim C9. Each of the three table-creating methods is idempotent: from any world, calling
  it twice leaves the same tables (names, columns, rows) as calling it once; a table that
  already exists is left as it is, by the first call and by the second; when the store can
  be opened and is usable, the second call changes nothing at all, so it reports no error;
  the files are untouched. The methods catch every database error, so none raises.
\<close>

theorem ensure_table_idempotent:
  assumes "f \<in> {create_search_results_table, create_images_results_table,
                 create_related_content_table}"
  shows "committed (f (f w)) = committed (f w)
       \<and> (\<forall>n t. committed w n = Some t \<longrightarrow>
              committed (f w) n = Some t \<and> committed (f (f w)) n = Some t)
       \<and> (can_connect w \<and> db_valid w \<longrightarrow> f (f w) = f w)
       \<and> files (f (f w)) = files w"
proof -
  obtain name cols where f: "f = create_table name cols"
    using assms
    by (auto simp: create_search_results_table_def create_images_results_table_def
        create_related_content_table_def)
  show ?thesis
    unfolding f
    by (auto simp: create_table_twice create_table_keeps create_table_quiet)
qed

theorem ensure_table_idempotent_witness:
  "committed (create_search_results_table (create_search_results_table w_empty))
     = committed (create_search_results_table w_empty)
   \<and> files (create_search_results_table (create_search_results_table w_empty)) = files w_empty"
  using ensure_table_idempotent [of create_search_results_table w_empty] by simp

lemma select_column_ok:
  assumes "valid c" and "working c name = Some t" and "col \<in> set (columns t)"
  shows "sql_select_column col name c = Inr (map (\<lambda>r. cell r col) (rows t))"
  using assms by (simp add: sql_select_column_def)

text \<open>
  Claim C7. \<^verbatim>\<open>get_collected_videos\<close> returns the empty list when the connection cannot
  be made. Otherwise, with both tables present, the list has no duplicates and its values
  are exactly the values of the \<^verbatim>\<open>link\<close> column of \<^verbatim>\<open>query_search_results\<close> and of
  \<^verbatim>\<open>images_results\<close> together.
\<close>

theorem collected_videos_distinct_union:
  "(\<not> can_connect w \<longrightarrow> fst (get_collected_videos w) = [])
   \<and> (can_connect w \<and> db_valid w
        \<and> committed w ''query_search_results'' = Some ts
        \<and> committed w ''images_results'' = Some ti
        \<and> ''link'' \<in> set (columns ts) \<and> ''link'' \<in> set (columns ti) \<longrightarrow>
        distinct (fst (get_collected_videos w))
        \<and> set (fst (get_collected_videos w)) =
            (\<lambda>r. cell r ''link'') ` (set (rows ts) \<union> set (rows ti)))"
proof (intro conjI impI)
  assume "\<not> can_connect w"
  then show "fst (get_collected_videos w) = []"
    by (simp add: get_collected_videos_def create_sql_connection_def)
next
  assume h: "can_connect w \<and> db_valid w
        \<and> committed w ''query_search_results'' = Some ts
        \<and> committed w ''images_results'' = Some ti
        \<and> ''link'' \<in> set (columns ts) \<and> ''link'' \<in> set (columns ti)"
  let ?c = "\<lparr>valid = db_valid w, durable = committed w, working = committed w\<rparr>"
  have u: "sql_select_union ''link'' ''query_search_results'' ''images_results'' ?c =
      Inr (remdups (map (\<lambda>r. cell r ''link'') (rows ts) @ map (\<lambda>r. cell r ''link'') (rows ti)))"
    using h by (simp add: sql_select_union_def select_column_ok)
  have r: "fst (get_collected_videos w) =
      remdups (map (\<lambda>r. cell r ''link'') (rows ts) @ map (\<lambda>r. cell r ''link'') (rows ti))"
    using h u by (simp add: get_collected_videos_def create_sql_connection_def)
  show "distinct (fst (get_collected_videos w))" by (simp add: r)
  show "set (fst (get_collected_videos w)) =
            (\<lambda>r. cell r ''link'') ` (set (rows ts) \<union> set (rows ti))"
    by (auto simp: r)
qed

lemma sql_insert_valid: "sql_insert name cols params c = Inr c' \<Longrightarrow> valid c' = valid c"
  by (auto simp: sql_insert_def Let_def split: if_splits option.splits)

lemma sql_insert_durable: "sql_insert name cols params c = Inr c' \<Longrightarrow> durable c' = durable c"
  by (auto simp: sql_insert_def Let_def split: if_splits option.splits)

lemma insert_loop_valid:
  "insert_loop name cols norm c es = (c', r) \<Longrightarrow> valid c' = valid c"
proof (induction es arbitrary: c)
  case Nil
  then show ?case by simp
next
  case (Cons e es)
  then show ?case
    by (auto simp: conn_commit_def split: sum.splits dest!: sql_insert_valid)
qed

lemma insert_loop_synced:
  "insert_loop name cols norm c es = (c', r) \<Longrightarrow> working c = durable c \<Longrightarrow>
     working c' = durable c'"
proof (induction es arbitrary: c)
  case Nil
  then show ?case by simp
next
  case (Cons e es)
  show ?case
  proof (cases "norm e")
    case (Inl err)
    then show ?thesis using Cons.prems by simp
  next
    case (Inr params)
    show ?thesis
    proof (cases "sql_insert name cols params c")
      case (Inl m)
      then show ?thesis using Cons.prems Inr by simp
    next
      case i: (Inr c1)
      have "insert_loop name cols norm (conn_commit c1) es = (c', r)"
        using Cons.prems(1) Inr i by simp
      moreover have "working (conn_commit c1) = durable (conn_commit c1)"
        by (simp add: conn_commit_def)
      ultimately show ?thesis by (rule Cons.IH)
    qed
  qed
qed

lemma insert_loop_append:
  "insert_loop name cols norm c (xs @ ys) =
     (case insert_loop name cols norm c xs of
        (c', None) \<Rightarrow> insert_loop name cols norm c' ys
      | (c', Some err) \<Rightarrow> (c', Some err))"
  by (induction xs arbitrary: c) (auto split: sum.splits)

lemma conn_eqI:
  "valid c = v \<Longrightarrow> durable c = d \<Longrightarrow> working c = d \<Longrightarrow>
     c = \<lparr>valid = v, durable = d, working = d\<rparr>"
  by (cases c) simp

lemma insert_rows_ok:
  assumes "can_connect w"
    and "insert_loop name cols norm
           \<lparr>valid = db_valid w, durable = committed w, working = committed w\<rparr> data = (c', None)"
  shows "insert_rows name cols norm w data = (conn_close c' w, None)"
  using assms by (simp add: insert_rows_def create_sql_connection_def)

lemma insert_rows_sqlite_error:
  assumes "can_connect w"
    and "insert_loop name cols norm
           \<lparr>valid = db_valid w, durable = committed w, working = committed w\<rparr> data
         = (c', Some (SqliteError m))"
  shows "insert_rows name cols norm w data =
     (conn_close c' (print_line (''An error occurred while inserting data: '' @ m) w), None)"
  using assms by (simp add: insert_rows_def create_sql_connection_def)

lemma insert_rows_other_error:
  assumes "can_connect w"
    and "insert_loop name cols norm
           \<lparr>valid = db_valid w, durable = committed w, working = committed w\<rparr> data
         = (c', Some err)"
    and "\<forall>m. err \<noteq> SqliteError m"
  shows "insert_rows name cols norm w data = (conn_close c' w, Some err)"
  using assms by (cases err) (simp_all add: insert_rows_def create_sql_connection_def)

lemma insert_rows_clean_D:
  assumes con: "can_connect w"
    and pre: "insert_rows name cols norm w pre = (w1, None)" and quiet: "stdout w1 = stdout w"
  shows "insert_loop name cols norm
           \<lparr>valid = db_valid w, durable = committed w, working = committed w\<rparr> pre
         = (\<lparr>valid = db_valid w, durable = committed w1, working = committed w1\<rparr>, None)
       \<and> w\<lparr>committed := committed w1\<rparr> = w1"
proof -
  let ?c = "\<lparr>valid = db_valid w, durable = committed w, working = committed w\<rparr>"
  obtain c' r where l: "insert_loop name cols norm ?c pre = (c', r)" by fastforce
  have r: "r = None \<and> w1 = conn_close c' w"
  proof (cases r)
    case None
    then show ?thesis using pre insert_rows_ok [OF con l [unfolded None]] by simp
  next
    case (Some err)
    show ?thesis
    proof (cases "\<exists>m. err = SqliteError m")
      case True
      then obtain m where m: "err = SqliteError m" by blast
      have "w1 = conn_close c' (print_line (''An error occurred while inserting data: '' @ m) w)"
        using pre insert_rows_sqlite_error [OF con l [unfolded Some m]] by simp
      then have "stdout w1 = stdout w @ [''An error occurred while inserting data: '' @ m]"
        by (simp add: conn_close_def print_line_def)
      then show ?thesis using quiet by simp
    next
      case False
      then have "\<forall>m. err \<noteq> SqliteError m" by blast
      then show ?thesis
        using pre insert_rows_other_error [OF con l [unfolded Some]] by simp
    qed
  qed
  have v: "valid c' = db_valid w" using insert_loop_valid [OF l] by simp
  have s: "working c' = durable c'" using insert_loop_synced [OF l] by simp
  have d: "durable c' = committed w1" using r by (simp add: conn_close_def)
  have "c' = \<lparr>valid = db_valid w, durable = committed w1, working = committed w1\<rparr>"
    using v s d by (intro conn_eqI) simp_all
  moreover have "w\<lparr>committed := committed w1\<rparr> = w1"
    using r d by (simp add: conn_close_def)
  ultimately show ?thesis using l r by simp
qed

text \<open>
  Claim C1, as amended. The three inserting methods are \<^verbatim>\<open>insert_rows\<close> at their table,
  columns and normalizer. Let the rows \<open>pre\<close> of a batch be inserted without any
  diagnostic, leaving the world \<open>w1\<close>. If the insert of the next row fails with a
  database error, the result of the whole call is \<open>w1\<close> with the diagnostic printed and
  no exception: the earlier rows stay committed, and the rows \<open>post\<close> after the failed
  one are not inserted. If the normalizer raises on the next row, the exception reaches
  the caller, again with \<open>w1\<close> as the store.
\<close>

theorem insert_stops_at_failed_row:
  assumes con: "can_connect w"
    and pre: "insert_rows name cols norm w pre = (w1, None)" and quiet: "stdout w1 = stdout w"
  shows "(norm bad = Inr params
          \<and> sql_insert name cols params
               \<lparr>valid = db_valid w, durable = committed w1, working = committed w1\<rparr> = Inl m \<longrightarrow>
            insert_rows name cols norm w (pre @ bad # post) =
              (print_line (''An error occurred while inserting data: '' @ m) w1, None))
       \<and> (norm bad = Inl err \<and> (\<forall>m. err \<noteq> SqliteError m) \<longrightarrow>
            insert_rows name cols norm w (pre @ bad # post) = (w1, Some err))"
proof -
  let ?c = "\<lparr>valid = db_valid w, durable = committed w, working = committed w\<rparr>"
  let ?c1 = "\<lparr>valid = db_valid w, durable = committed w1, working = committed w1\<rparr>"
  have l: "insert_loop name cols norm ?c pre = (?c1, None)"
    and w1: "w\<lparr>committed := committed w1\<rparr> = w1"
    using insert_rows_clean_D [OF con pre quiet] by simp_all
  have cl: "conn_close ?c1 w = w1" using w1 by (simp add: conn_close_def)
  have clp: "conn_close ?c1 (print_line x w) = print_line x w1" for x
  proof -
    have "conn_close ?c1 (print_line x w) = print_line x (w\<lparr>committed := committed w1\<rparr>)"
      by (simp add: conn_close_def print_line_def)
    then show ?thesis by (simp only: w1)
  qed
  show ?thesis
  proof (intro conjI impI)
    assume "norm bad = Inr params \<and> sql_insert name cols params ?c1 = Inl m"
    then have "insert_loop name cols norm ?c (pre @ bad # post) = (?c1, Some (SqliteError m))"
      by (simp add: insert_loop_append l)
    from insert_rows_sqlite_error [OF con this]
    show "insert_rows name cols norm w (pre @ bad # post) =
              (print_line (''An error occurred while inserting data: '' @ m) w1, None)"
      by (simp only: clp)
  next
    assume h: "norm bad = Inl err \<and> (\<forall>m. err \<noteq> SqliteError m)"
    then have "insert_loop name cols norm ?c (pre @ bad # post) = (?c1, Some err)"
      by (simp add: insert_loop_append l)
    moreover have "\<forall>m. err \<noteq> SqliteError m" using h by blast
    ultimately have "insert_rows name cols norm w (pre @ bad # post) = (conn_close ?c1 w, Some err)"
      by (rule insert_rows_other_error [OF con])
    then show "insert_rows name cols norm w (pre @ bad # post) = (w1, Some err)"
      by (simp only: cl)
  qed
qed









text \<open>
  Claim C1 as stated fails on a batch of three records whose second has a list as
  \<^verbatim>\<open>source\<close>: the first row is stored and the failure is printed, but the third record,
  which is stored when inserted on its own, is not.
\<close>

theorem insert_continues_counterexample:
  "stored_links ''query_search_results''
     (fst (insert_search_results (init w_empty)
             [video_entry ''1'', list_source_entry, video_entry ''3'']))
     = Some [Text ''https://www.tiktok.com/@u/video/1'']
   \<and> stdout (fst (insert_search_results (init w_empty)
             [video_entry ''1'', list_source_entry, video_entry ''3'']))
     = [''An error occurred while inserting data: Error binding parameter: type is not supported'']
   \<and> stored_links ''query_search_results''
       (fst (insert_search_results (init w_empty) [video_entry ''3'']))
     = Some [Text ''https://www.tiktok.com/@u/video/3'']"
  by code_simp


theorem insert_stops_at_failed_row_witness:
  "insert_search_results (init w_empty)
     ([video_entry ''1''] @ list_source_entry # [video_entry ''3'']) =
   (print_line
      (''An error occurred while inserting data: ''
         @ ''Error binding parameter: type is not supported'')
      (fst (insert_search_results (init w_empty) [video_entry ''1''])), None)"
proof -
  let ?w = "init w_empty"
  let ?w1 = "fst (insert_search_results ?w [video_entry ''1''])"
  let ?params = "[PList [''ad''], PNone, PNone, PStr ''https://www.tiktok.com/@u/video/2'',
      PNone, PNone, PNone, PNone, PStr '' '', PNone, PNone, PStr ''u'',
      PStr ''https://www.tiktok.com/@u'', PStr ''2'']"
  have con: "can_connect ?w" by code_simp
  have "snd (insert_search_results ?w [video_entry ''1'']) = None" by code_simp
  then have pre: "insert_rows ''query_search_results'' search_results_columns
      get_items_from_search_results ?w [video_entry ''1''] = (?w1, None)"
    by (simp add: insert_search_results_def prod_eq_iff)
  have quiet: "stdout ?w1 = stdout ?w" by code_simp
  have bad: "get_items_from_search_results list_source_entry = Inr ?params" by code_simp
  have "case sql_insert ''query_search_results'' search_results_columns ?params
      \<lparr>valid = db_valid ?w, durable = committed ?w1, working = committed ?w1\<rparr> of
        Inl m \<Rightarrow> m = ''Error binding parameter: type is not supported'' | Inr c \<Rightarrow> False"
    by code_simp
  then have fails: "sql_insert ''query_search_results'' search_results_columns ?params
      \<lparr>valid = db_valid ?w, durable = committed ?w1, working = committed ?w1\<rparr>
      = Inl ''Error binding parameter: type is not supported''"
    by (simp split: sum.splits)
  show ?thesis
    using insert_stops_at_failed_row [OF con pre quiet, of list_source_entry ?params
        "''Error binding parameter: type is not supported''" "[video_entry ''3'']" IndexError]
      bad fails
    by (simp add: insert_search_results_def)
qed


theorem collected_videos_distinct_union_witness:
  "distinct (fst (get_collected_videos w_links))
   \<and> set (fst (get_collected_videos w_links)) =
       {Text ''https://www.tiktok.com/@u/video/1'', Text ''https://www.tiktok.com/@u/video/2'',
        Text ''https://www.tiktok.com/@u/video/3''}"
proof -
  have con: "can_connect w_links" "db_valid w_links" by code_simp+
  have ex: "committed w_links ''query_search_results'' \<noteq> None"
    "committed w_links ''images_results'' \<noteq> None" by code_simp+
  then obtain ts ti where t: "committed w_links ''query_search_results'' = Some ts"
    "committed w_links ''images_results'' = Some ti" by auto
  have "''link'' \<in> set (columns (the (committed w_links ''query_search_results'')))"
    "''link'' \<in> set (columns (the (committed w_links ''images_results'')))" by code_simp+
  then have cols: "''link'' \<in> set (columns ts)" "''link'' \<in> set (columns ti)"
    using t by simp_all
  have "map (\<lambda>r. cell r ''link'') (rows (the (committed w_links ''query_search_results''))) =
      [Text ''https://www.tiktok.com/@u/video/1'', Text ''https://www.tiktok.com/@u/video/2'',
       Text ''https://www.tiktok.com/@u/video/1'']"
    "map (\<lambda>r. cell r ''link'') (rows (the (committed w_links ''images_results''))) =
      [Text ''https://www.tiktok.com/@u/video/2'', Text ''https://www.tiktok.com/@u/video/3'']"
    by code_simp+
  then have links: "(\<lambda>r. cell r ''link'') ` set (rows ts) =
      {Text ''https://www.tiktok.com/@u/video/1'', Text ''https://www.tiktok.com/@u/video/2''}"
    "(\<lambda>r. cell r ''link'') ` set (rows ti) =
      {Text ''https://www.tiktok.com/@u/video/2'', Text ''https://www.tiktok.com/@u/video/3''}"
    using t by (auto simp flip: set_map)
  show ?thesis
    using collected_videos_distinct_union [of w_links ts ti] con t cols links
    by (auto simp: image_Un)
qed

section \<open>The likes and comments search\<close>

lemma drop_in_run:
  "(\<exists>n. lo \<le> n \<and> n \<le> length (takeWhile p s) \<and> t = drop n s) \<longleftrightarrow>
   (\<exists>w. s = w @ t \<and> lo \<le> length w \<and> (\<forall>c\<in>set w. p c))"
proof
  assume "\<exists>n. lo \<le> n \<and> n \<le> length (takeWhile p s) \<and> t = drop n s"
  then obtain n where n: "lo \<le> n" "n \<le> length (takeWhile p s)" "t = drop n s" by blast
  have "take n s = take n (takeWhile p s)"
    using n(2) by (metis append_eq_conv_conj takeWhile_dropWhile_id take_append
        diff_is_0_eq take_0 append_Nil2)
  then have "\<forall>c\<in>set (take n s). p c"
    by (metis in_set_takeD set_takeWhileD)
  moreover have "length (take n s) = n"
    using n(2) length_takeWhile_le [of p s] by simp
  ultimately show "\<exists>w. s = w @ t \<and> lo \<le> length w \<and> (\<forall>c\<in>set w. p c)"
    using n(1,3) by (intro exI [of _ "take n s"]) simp
next
  assume "\<exists>w. s = w @ t \<and> lo \<le> length w \<and> (\<forall>c\<in>set w. p c)"
  then obtain w where w: "s = w @ t" "lo \<le> length w" "\<forall>c\<in>set w. p c" by blast
  have "takeWhile p s = w @ takeWhile p t" using w(1,3) by (simp add: takeWhile_append2)
  then have "length w \<le> length (takeWhile p s)" by simp
  then show "\<exists>n. lo \<le> n \<and> n \<le> length (takeWhile p s) \<and> t = drop n s"
    using w(1,2) by (intro exI [of _ "length w"]) simp
qed

lemma rx_match_lang:
  "t \<in> set (rx_match u r s) \<longleftrightarrow> (\<exists>w\<in>lang u r. s = w @ t)"
proof (induction r arbitrary: s t)
  case Eps
  show ?case by auto
next
  case (Cls k)
  show ?case by (cases s) auto
next
  case (Star k)
  have "t \<in> set (rx_match u (Star k) s) \<longleftrightarrow>
        (\<exists>n. 0 \<le> n \<and> n \<le> length (takeWhile (cc_match u k) s) \<and> t = drop n s)"
    by (auto simp del: upt_Suc simp add: less_Suc_eq_le)
  then show ?case unfolding drop_in_run by auto
next
  case (Plus k)
  have "t \<in> set (rx_match u (Plus k) s) \<longleftrightarrow>
        (\<exists>n. 1 \<le> n \<and> n \<le> length (takeWhile (cc_match u k) s) \<and> t = drop n s)"
    by (auto simp del: upt_Suc simp add: less_Suc_eq_le)
  then show ?case unfolding drop_in_run by (auto simp: Suc_le_eq)
next
  case (Seq a b)
  have "t \<in> set (rx_match u (Seq a b) s) \<longleftrightarrow>
        (\<exists>m\<in>set (rx_match u a s). t \<in> set (rx_match u b m))" by auto
  also have "\<dots> \<longleftrightarrow> (\<exists>m. (\<exists>x\<in>lang u a. s = x @ m) \<and> (\<exists>y\<in>lang u b. m = y @ t))"
    using Seq.IH by blast
  also have "\<dots> \<longleftrightarrow> (\<exists>w\<in>lang u (Seq a b). s = w @ t)"
    by (auto, metis append.assoc, blast)
  finally show ?case .
next
  case (Opt a)
  show ?case using Opt.IH by auto
qed

lemma rx_match_nonempty: "rx_match u r s \<noteq> [] \<longleftrightarrow> (\<exists>w t. s = w @ t \<and> w \<in> lang u r)"
proof -
  have "rx_match u r s \<noteq> [] \<longleftrightarrow> (\<exists>t. t \<in> set (rx_match u r s))"
    by (cases "rx_match u r s") auto
  then show ?thesis using rx_match_lang by blast
qed

lemma rx_match_suffix: "t \<in> set (rx_match u r s) \<Longrightarrow> set t \<subseteq> set s"
  using rx_match_lang [of t u r s] by auto

lemma in_lang_Star_sep:
  "x \<in> lang u (Star (Union Decimal (Exactly (codes '',.'')))) \<longleftrightarrow>
     (\<forall>c\<in>set x. is_decimal u c \<or> c \<in> set (codes '',.''))"
  by simp

lemma in_lang_Plus_decimal:
  "x \<in> lang u (Plus Decimal) \<longleftrightarrow> x \<noteq> [] \<and> (\<forall>c\<in>set x. is_decimal u c)"
  by simp

lemma number_body_split:
  "number_body u b \<longleftrightarrow>
     (\<exists>d m. b = d @ m \<and> d \<in> lang u (Plus Decimal)
        \<and> m \<in> lang u (Opt (Seq (Star (Union Decimal (Exactly (codes '',.'')))) (Plus Decimal))))"
proof
  assume nb: "number_body u b"
  then have b: "b \<noteq> []" "is_decimal u (hd b)" "is_decimal u (last b)"
    "\<forall>c\<in>set b. is_decimal u c \<or> c \<in> set (codes '',.'')"
    unfolding number_body_def by blast+
  show "\<exists>d m. b = d @ m \<and> d \<in> lang u (Plus Decimal)
        \<and> m \<in> lang u (Opt (Seq (Star (Union Decimal (Exactly (codes '',.'')))) (Plus Decimal)))"
  proof (cases "tl b = []")
    case True
    then have e: "b = [hd b]" using b(1) by (cases b) simp_all
    have "[hd b] \<in> lang u (Plus Decimal)" using b(2) by simp
    then have "b \<in> lang u (Plus Decimal)" using e by simp
    moreover have "[] \<in> lang u (Opt (Seq (Star (Union Decimal (Exactly (codes '',.'')))) (Plus Decimal)))"
      by simp
    ultimately show ?thesis by (metis append_Nil2)
  next
    case False
    let ?x = "butlast (tl b)"
    have tl: "tl b = ?x @ [last b]"
      using False b(1) by (metis append_butlast_last_id last_tl)
    have eq: "b = [hd b] @ (?x @ [last b])"
      using b(1) tl by (metis append_Cons append_Nil list.collapse)
    have d: "[hd b] \<in> lang u (Plus Decimal)" using b(2) by simp
    have "set ?x \<subseteq> set b"
      by (metis b(1) in_set_butlastD list.set_sel(2) subsetI)
    then have x: "?x \<in> lang u (Star (Union Decimal (Exactly (codes '',.''))))"
      using b(4) by (simp only: in_lang_Star_sep) blast
    have y: "[last b] \<in> lang u (Plus Decimal)" using b(3) by simp
    have "?x @ [last b] \<in> lang u (Seq (Star (Union Decimal (Exactly (codes '',.'')))) (Plus Decimal))"
      using x y by (simp only: lang.simps mem_Collect_eq) blast
    then have "?x @ [last b] \<in> lang u (Opt (Seq (Star (Union Decimal (Exactly (codes '',.'')))) (Plus Decimal)))"
      by (simp only: lang.simps insert_iff simp_thms)
    then show ?thesis using eq d by blast
  qed
next
  assume "\<exists>d m. b = d @ m \<and> d \<in> lang u (Plus Decimal)
        \<and> m \<in> lang u (Opt (Seq (Star (Union Decimal (Exactly (codes '',.'')))) (Plus Decimal)))"
  then obtain d m where dm: "b = d @ m" "d \<in> lang u (Plus Decimal)"
    "m \<in> lang u (Opt (Seq (Star (Union Decimal (Exactly (codes '',.'')))) (Plus Decimal)))" by blast
  have d: "d \<noteq> []" "\<forall>c\<in>set d. is_decimal u c" using dm(2) by simp_all
  have hd: "is_decimal u (hd b)" using d dm(1) by (cases d) simp_all
  have ne: "b \<noteq> []" using d(1) dm(1) by simp
  show "number_body u b"
  proof (cases "m = []")
    case True
    then have "b = d" using dm(1) by simp
    then show ?thesis using d hd ne by (simp add: number_body_def)
  next
    case False
    then have "m \<in> lang u (Seq (Star (Union Decimal (Exactly (codes '',.'')))) (Plus Decimal))"
      using dm(3) by simp
    then obtain x y where xy: "m = x @ y" "x \<in> lang u (Star (Union Decimal (Exactly (codes '',.''))))"
      "y \<in> lang u (Plus Decimal)"
      by (auto simp only: lang.simps mem_Collect_eq)
    have y: "y \<noteq> []" "\<forall>c\<in>set y. is_decimal u c" using xy(3) by simp_all
    have x: "\<forall>c\<in>set x. is_decimal u c \<or> c \<in> set (codes '',.'')"
      using xy(2) by (simp only: in_lang_Star_sep)
    have l: "is_decimal u (last b)" using y dm(1) xy(1) by simp
    have "\<forall>c\<in>set b. is_decimal u c \<or> c \<in> set (codes '',.'')"
      using d(2) x y(2) dm(1) xy(1) by auto
    then show ?thesis using hd ne l by (simp add: number_body_def)
  qed
qed

lemma in_lang_km: "k \<in> lang u (Opt (Cls (Folded (codes ''km'')))) \<longleftrightarrow>
    k = [] \<or> (\<exists>c. k = [c] \<and> to_lower u c \<in> set (codes ''km''))"
  by (simp only: lang.simps cc_match.simps insert_iff mem_Collect_eq)

lemma number_lang_split:
  "w \<in> lang u number_rx \<longleftrightarrow>
     (\<exists>b k. w = b @ k \<and> number_body u b
        \<and> (k = [] \<or> (\<exists>c. k = [c] \<and> to_lower u c \<in> set (codes ''km''))))"
proof -
  let ?opt = "Opt (Seq (Star (Union Decimal (Exactly (codes '',.'')))) (Plus Decimal))"
  have "w \<in> lang u number_rx \<longleftrightarrow>
      (\<exists>d v. w = d @ v \<and> d \<in> lang u (Plus Decimal)
         \<and> (\<exists>m k. v = m @ k \<and> m \<in> lang u ?opt \<and> k \<in> lang u (Opt (Cls (Folded (codes ''km''))))))"
    unfolding number_rx_def lang.simps(5) by blast
  also have "\<dots> \<longleftrightarrow>
      (\<exists>b k. w = b @ k \<and> (\<exists>d m. b = d @ m \<and> d \<in> lang u (Plus Decimal) \<and> m \<in> lang u ?opt)
         \<and> k \<in> lang u (Opt (Cls (Folded (codes ''km'')))))"
    by (metis append.assoc)
  finally show ?thesis
    by (simp only: number_body_split [symmetric] in_lang_km)
qed

lemma number_lang: "w \<in> lang u number_rx \<longleftrightarrow> spec_number u w"
proof
  assume "w \<in> lang u number_rx"
  then obtain b k where bk: "w = b @ k" "number_body u b"
    "k = [] \<or> (\<exists>c. k = [c] \<and> to_lower u c \<in> set (codes ''km''))"
    using number_lang_split by blast
  show "spec_number u w"
  proof (cases "k = []")
    case True
    then show ?thesis using bk(1,2) by (simp add: spec_number_def)
  next
    case False
    then obtain c where c: "k = [c]" "to_lower u c \<in> set (codes ''km'')" using bk(3) by blast
    then have "w \<noteq> []" "last w = c" "butlast w = b" using bk(1) by simp_all
    then show ?thesis using bk(2) c(2) unfolding spec_number_def by blast
  qed
next
  assume s: "spec_number u w"
  show "w \<in> lang u number_rx"
  proof (cases "number_body u w")
    case True
    moreover have "w = w @ []" by simp
    ultimately show ?thesis using number_lang_split by blast
  next
    case False
    then have k: "w \<noteq> []" "to_lower u (last w) \<in> set (codes ''km'')" "number_body u (butlast w)"
      using s unfolding spec_number_def by blast+
    have "w = butlast w @ [last w]" using k(1) by simp
    then show ?thesis using k number_lang_split by blast
  qed
qed

lemma literal_class_match: "cc_match u (literal_class p) c \<longleftrightarrow> ci_char u c p"
  by (auto simp: literal_class_def ci_char_def Let_def ignorecase_fixes_def)

lemma ci_eq_Nil [simp]: "ci_eq u w [] \<longleftrightarrow> w = []"
  by (simp add: ci_eq_def)

lemma ci_eq_Cons: "ci_eq u w (p # ps) \<longleftrightarrow> (\<exists>c v. w = c # v \<and> ci_char u c p \<and> ci_eq u v ps)"
  by (simp add: ci_eq_def list_all2_Cons2)

lemma lit_lang: "w \<in> lang u (lit s) \<longleftrightarrow> ci_eq u w s"
proof (induction s arbitrary: w)
  case Nil
  show ?case by simp
next
  case (Cons p ps)
  have "w \<in> lang u (lit (p # ps)) \<longleftrightarrow>
      (\<exists>c v. w = [c] @ v \<and> ci_char u c p \<and> v \<in> lang u (lit ps))"
    by (simp only: lit.simps lang.simps literal_class_match mem_Collect_eq) blast
  then show ?case using Cons.IH by (simp add: ci_eq_Cons)
qed

lemma ci_char_space: "ci_char u c CHR '' '' \<longleftrightarrow> c = 32"
  by (simp add: ci_char_def)

lemma codes_space: "codes '' '' = [32]"
  by (simp add: codes_def)

lemma space_word_match:
  "rx_match u (lit ('' '' @ word)) r \<noteq> [] \<longleftrightarrow>
     (\<exists>lk post. r = codes '' '' @ lk @ post \<and> ci_eq u lk word)"
proof -
  have "'' '' @ word = CHR '' '' # word" by simp
  then have "rx_match u (lit ('' '' @ word)) r \<noteq> [] \<longleftrightarrow>
      (\<exists>x t. r = x @ t \<and> ci_eq u x (CHR '' '' # word))"
    by (simp only: rx_match_nonempty lit_lang)
  also have "\<dots> \<longleftrightarrow> (\<exists>c lk t. r = (c # lk) @ t \<and> c = 32 \<and> ci_eq u lk word)"
    by (simp only: ci_eq_Cons ci_char_space) blast
  also have "\<dots> \<longleftrightarrow> (\<exists>lk post. r = codes '' '' @ lk @ post \<and> ci_eq u lk word)"
    by (simp add: codes_space)
  finally show ?thesis .
qed

lemma match_here_Some:
  assumes "match_here u g rest s = Some w"
  shows "\<exists>r. r \<in> set (rx_match u g s) \<and> rx_match u rest r \<noteq> []
            \<and> w = take (length s - length r) s"
proof (cases "filter (\<lambda>r. rx_match u rest r \<noteq> []) (rx_match u g s)")
  case Nil
  then show ?thesis using assms by (simp add: match_here_def)
next
  case (Cons r rs)
  then have "r \<in> set (filter (\<lambda>r. rx_match u rest r \<noteq> []) (rx_match u g s))" by simp
  then have "r \<in> set (rx_match u g s)" "rx_match u rest r \<noteq> []" by simp_all
  moreover have "w = take (length s - length r) s" using assms Cons by (simp add: match_here_def)
  ultimately show ?thesis by blast
qed

lemma match_here_None:
  assumes "match_here u g rest s = None"
  shows "\<forall>r\<in>set (rx_match u g s). rx_match u rest r = []"
proof (cases "filter (\<lambda>r. rx_match u rest r \<noteq> []) (rx_match u g s)")
  case Nil
  then show ?thesis by (simp add: filter_empty_conv)
next
  case (Cons r rs)
  then show ?thesis using assms by (simp add: match_here_def)
qed

lemma spec_occurrence_shift:
  "spec_occurrence u word (pre @ suf) pre w \<longleftrightarrow> spec_occurrence u word suf [] w"
  by (simp add: spec_occurrence_def)

lemma spec_occurrence_suffix:
  "spec_occurrence u word text pre w \<Longrightarrow>
     \<exists>suf. text = pre @ suf \<and> spec_occurrence u word suf [] w"
  by (auto simp: spec_occurrence_def)

lemma match_here_occurrence:
  assumes "match_here u number_rx (lit ('' '' @ word)) s = Some w"
  shows "spec_occurrence u word s [] w"
proof -
  obtain r where r: "r \<in> set (rx_match u number_rx s)" "rx_match u (lit ('' '' @ word)) r \<noteq> []"
    "w = take (length s - length r) s"
    using match_here_Some [OF assms] by blast
  obtain n where n: "n \<in> lang u number_rx" "s = n @ r" using r(1) rx_match_lang by blast
  have "w = n" using r(3) n(2) by simp
  then have "spec_number u w" "s = w @ r" using n number_lang by simp_all
  moreover obtain lk post where "r = codes '' '' @ lk @ post" "ci_eq u lk word"
    using r(2) space_word_match by blast
  ultimately show ?thesis unfolding spec_occurrence_def by auto
qed

lemma match_here_no_occurrence:
  assumes "match_here u number_rx (lit ('' '' @ word)) s = None"
  shows "\<not> spec_occurrence u word s [] w"
proof
  assume "spec_occurrence u word s [] w"
  then obtain lk post where o: "s = w @ codes '' '' @ lk @ post" "spec_number u w" "ci_eq u lk word"
    unfolding spec_occurrence_def by auto
  have "codes '' '' @ lk @ post \<in> set (rx_match u number_rx s)"
    using o(1,2) number_lang rx_match_lang by blast
  moreover have "rx_match u (lit ('' '' @ word)) (codes '' '' @ lk @ post) \<noteq> []"
    using o(3) space_word_match by blast
  ultimately show False using match_here_None [OF assms] by blast
qed

lemma rx_search_Nil:
  "rx_search u g rest [] = match_here u g rest []"
  by (subst rx_search.simps) (simp split: option.splits)

lemma rx_search_Cons:
  "rx_search u g rest (c # cs) =
     (case match_here u g rest (c # cs) of Some w \<Rightarrow> Some w | None \<Rightarrow> rx_search u g rest cs)"
  by (subst rx_search.simps) (simp split: option.splits)

lemma rx_search_None:
  assumes "rx_search u number_rx (lit ('' '' @ word)) s = None"
  shows "\<not> spec_occurrence u word s pre w"
  using assms
proof (induction s arbitrary: pre)
  case Nil
  then have "match_here u number_rx (lit ('' '' @ word)) [] = None" by (simp only: rx_search_Nil)
  then have "\<not> spec_occurrence u word [] [] w" by (rule match_here_no_occurrence)
  then show ?case using spec_occurrence_suffix by fastforce
next
  case (Cons c cs)
  have m: "match_here u number_rx (lit ('' '' @ word)) (c # cs) = None"
    and r: "rx_search u number_rx (lit ('' '' @ word)) cs = None"
    using Cons.prems by (auto simp only: rx_search_Cons split: option.splits)
  show ?case
  proof
    assume o: "spec_occurrence u word (c # cs) pre w"
    show False
    proof (cases pre)
      case Nil
      then show ?thesis using o match_here_no_occurrence [OF m] by blast
    next
      case (Cons x pre')
      then obtain suf where "c # cs = (x # pre') @ suf" "spec_occurrence u word suf [] w"
        using o spec_occurrence_suffix by blast
      then have "spec_occurrence u word cs pre' w"
        using spec_occurrence_shift [of u word pre' suf w] by simp
      then show ?thesis using Cons.IH [OF r] by blast
    qed
  qed
qed

lemma rx_search_Some:
  assumes "rx_search u number_rx (lit ('' '' @ word)) s = Some w"
  shows "\<exists>pre. spec_occurrence u word s pre w
           \<and> (\<forall>pre' w'. spec_occurrence u word s pre' w' \<longrightarrow> length pre \<le> length pre')"
  using assms
proof (induction s)
  case Nil
  then have "match_here u number_rx (lit ('' '' @ word)) [] = Some w" by (simp only: rx_search_Nil)
  then have "spec_occurrence u word [] [] w" by (rule match_here_occurrence)
  then show ?case by (intro exI [of _ "[]"]) simp
next
  case (Cons c cs)
  show ?case
  proof (cases "match_here u number_rx (lit ('' '' @ word)) (c # cs)")
    case (Some w0)
    then have "w0 = w" using Cons.prems by (simp add: rx_search_Cons)
    then have "spec_occurrence u word (c # cs) [] w" using Some match_here_occurrence by blast
    then show ?thesis by (intro exI [of _ "[]"]) simp
  next
    case None
    then have "rx_search u number_rx (lit ('' '' @ word)) cs = Some w"
      using Cons.prems by (simp add: rx_search_Cons)
    then obtain pre where pre: "spec_occurrence u word cs pre w"
      "\<forall>pre' w'. spec_occurrence u word cs pre' w' \<longrightarrow> length pre \<le> length pre'"
      using Cons.IH by blast
    obtain suf where suf: "cs = pre @ suf" "spec_occurrence u word suf [] w"
      using pre(1) spec_occurrence_suffix by blast
    have a: "spec_occurrence u word (c # cs) (c # pre) w"
      using suf spec_occurrence_shift [of u word "c # pre" suf w] by simp
    have b: "length (c # pre) \<le> length q" if q: "spec_occurrence u word (c # cs) q w'" for q w'
    proof (cases q)
      case Nil
      then show ?thesis using q match_here_no_occurrence [OF None] by blast
    next
      case (Cons x q')
      then obtain suf' where "c # cs = (x # q') @ suf'" "spec_occurrence u word suf' [] w'"
        using q spec_occurrence_suffix by blast
      then have "spec_occurrence u word cs q' w'"
        using spec_occurrence_shift [of u word q' suf' w'] by simp
      then have "length pre \<le> length q'" using pre(2) by blast
      then show ?thesis using Cons by simp
    qed
    show ?thesis using a b by blast
  qed
qed

lemma search_first_match:
  "spec_first_match u word text (rx_search u number_rx (lit ('' '' @ word)) text)"
proof (cases "rx_search u number_rx (lit ('' '' @ word)) text")
  case None
  then show ?thesis using rx_search_None [OF None]
    by (simp add: spec_first_match_def)
next
  case (Some w)
  then show ?thesis using rx_search_Some [OF Some]
    by (simp add: spec_first_match_def)
qed

lemma extract_first_match:
  "spec_first_match u ''Likes'' text (fst (extract_likes_comments_str u text))"
  "spec_first_match u ''Comments'' text (snd (extract_likes_comments_str u text))"
proof -
  have l: "'' '' @ ''Likes'' = '' Likes''" and c: "'' '' @ ''Comments'' = '' Comments''"
    by simp_all
  have "spec_first_match u ''Likes'' text (rx_search u number_rx (lit '' Likes'') text)"
    using search_first_match [of u "''Likes''" "text"] by (simp only: l)
  then show "spec_first_match u ''Likes'' text (fst (extract_likes_comments_str u text))"
    by (simp only: extract_likes_comments_str_def Let_def fst_conv)
  have "spec_first_match u ''Comments'' text (rx_search u number_rx (lit '' Comments'') text)"
    using search_first_match [of u "''Comments''" "text"] by (simp only: c)
  then show "spec_first_match u ''Comments'' text (snd (extract_likes_comments_str u text))"
    by (simp only: extract_likes_comments_str_def Let_def snd_conv)
qed

lemma agree_subset: "agree u v S \<Longrightarrow> T \<subseteq> S \<Longrightarrow> agree u v T"
  by (auto simp: agree_def)

lemma cc_match_agree: "agree u v S \<Longrightarrow> c \<in> S \<Longrightarrow> cc_match u k c = cc_match v k c"
  by (induction k) (auto simp: agree_def)

lemma takeWhile_agree:
  assumes "agree u v (set s)"
  shows "takeWhile (cc_match u k) s = takeWhile (cc_match v k) s"
  using assms by (intro takeWhile_cong) (auto simp: cc_match_agree)

lemma rx_match_agree: "agree u v (set s) \<Longrightarrow> rx_match u r s = rx_match v r s"
proof (induction r arbitrary: s)
  case Eps
  show ?case by simp
next
  case (Cls k)
  then show ?case by (cases s) (auto simp: cc_match_agree [of u v "set s"])
next
  case (Star k)
  then show ?case by (simp add: takeWhile_agree del: upt_Suc)
next
  case (Plus k)
  then show ?case by (simp add: takeWhile_agree del: upt_Suc)
next
  case (Seq a b)
  have a: "rx_match u a s = rx_match v a s" using Seq by blast
  have "rx_match u b m = rx_match v b m" if "m \<in> set (rx_match v a s)" for m
  proof -
    have "set m \<subseteq> set s" using that rx_match_suffix by blast
    then show ?thesis using Seq.IH(2) Seq.prems agree_subset by blast
  qed
  then have "map (rx_match u b) (rx_match v a s) = map (rx_match v b) (rx_match v a s)"
    by (intro map_cong) simp_all
  then show ?case by (simp only: rx_match.simps a)
next
  case (Opt a)
  then show ?case by simp
qed

lemma match_here_agree:
  assumes "agree u v (set s)"
  shows "match_here u g rest s = match_here v g rest s"
proof -
  have g: "rx_match u g s = rx_match v g s" using assms by (rule rx_match_agree)
  have "rx_match u rest r = rx_match v rest r" if "r \<in> set (rx_match v g s)" for r
  proof -
    have "set r \<subseteq> set s" using that rx_match_suffix by blast
    then show ?thesis using assms agree_subset rx_match_agree by blast
  qed
  then have "filter (\<lambda>r. rx_match u rest r \<noteq> []) (rx_match v g s) =
             filter (\<lambda>r. rx_match v rest r \<noteq> []) (rx_match v g s)"
    by (intro filter_cong) simp_all
  then show ?thesis by (simp add: match_here_def g)
qed

lemma rx_search_agree:
  "agree u v (set s) \<Longrightarrow> rx_search u g rest s = rx_search v g rest s"
proof (induction s)
  case Nil
  then show ?case by (simp only: rx_search_Nil match_here_agree)
next
  case (Cons c cs)
  have "agree u v (set cs)" using Cons.prems by (rule agree_subset) auto
  then have "rx_search u g rest cs = rx_search v g rest cs" by (rule Cons.IH)
  then show ?case using match_here_agree [OF Cons.prems] by (simp only: rx_search_Cons)
qed

lemma extract_agree:
  "agree u v (set s) \<Longrightarrow> extract_likes_comments_str u s = extract_likes_comments_str v s"
  by (simp only: extract_likes_comments_str_def rx_search_agree)

lemma codes_below_256: "set (codes s) \<subseteq> {c. c < 256}"
proof -
  have "of_char c < (256 :: nat)" for c :: char
    by (metis of_char_mod_256 mod_less_divisor zero_less_numeral)
  then show ?thesis by (auto simp: codes_def)
qed

lemma ascii_tables_agree: "ascii_tables u \<Longrightarrow> agree u latin1 {c. c < 128}"
  by (simp add: ascii_tables_def agree_def latin1_def)

lemma latin1_tables_agree: "latin1_tables u \<Longrightarrow> agree u latin1 {c. c < 256}"
  by (simp add: latin1_tables_def agree_def latin1_def)

lemma extract_on_record_value:
  assumes "latin1_tables u"
  shows "extract_likes_comments (PStr s) =
           Inr (group_or_none (fst (extract_likes_comments_str u (codes s))),
                group_or_none (snd (extract_likes_comments_str u (codes s))))"
proof -
  have "agree u latin1 (set (codes s))"
    using latin1_tables_agree [OF assms] codes_below_256 by (rule agree_subset)
  then have "extract_likes_comments_str u (codes s) = extract_likes_comments_str latin1 (codes s)"
    by (rule extract_agree)
  then show ?thesis by (simp add: extract_likes_comments_def split: prod.splits)
qed

lemma example_texts_ascii:
  "set (codes ''1.2K Likes, 340 Comments'') \<subseteq> {c. c < 128}"
  "set (codes ''no stats here'') \<subseteq> {c. c < 128}"
  by (simp_all add: codes_def)

lemma examples_latin1:
  "extract_likes_comments_str latin1 (codes ''1.2K Likes, 340 Comments'') =
     (Some (codes ''1.2K''), Some (codes ''340''))"
  "extract_likes_comments_str latin1 (codes ''no stats here'') = (None, None)"
  by code_simp+

text \<open>
  Claim C5. For every text, a sequence of Unicode code points, and whatever the tables of
  the interpreter, \<^verbatim>\<open>extract_likes_comments\<close> makes two independent searches. The first
  component is the number of the leftmost occurrence of a number followed by one space
  and the word \<^verbatim>\<open>Likes\<close> in any case, as the substring of the text itself, or null when
  the text has no such occurrence; the second is the same for \<^verbatim>\<open>Comments\<close>. The two
  examples of the specification hold for every build whose tables are the ASCII ones on
  ASCII. On a string value of a record the function is this search, for every build whose
  tables are the Latin-1 ones below 256.
\<close>

theorem likes_comments_first_occurrence:
  "spec_first_match u ''Likes'' text (fst (extract_likes_comments_str u text))
   \<and> spec_first_match u ''Comments'' text (snd (extract_likes_comments_str u text))
   \<and> (ascii_tables u \<longrightarrow>
        extract_likes_comments_str u (codes ''1.2K Likes, 340 Comments'') =
          (Some (codes ''1.2K''), Some (codes ''340''))
        \<and> extract_likes_comments_str u (codes ''no stats here'') = (None, None))
   \<and> (latin1_tables u \<longrightarrow>
        extract_likes_comments (PStr s) =
          Inr (group_or_none (fst (extract_likes_comments_str u (codes s))),
               group_or_none (snd (extract_likes_comments_str u (codes s)))))
   \<and> extract_likes_comments (PStr ''1.2K Likes, 340 Comments'') = Inr (PStr ''1.2K'', PStr ''340'')
   \<and> extract_likes_comments (PStr ''no stats here'') = Inr (PNone, PNone)"
proof (intro conjI impI)
  show "spec_first_match u ''Likes'' text (fst (extract_likes_comments_str u text))"
    by (rule extract_first_match)
  show "spec_first_match u ''Comments'' text (snd (extract_likes_comments_str u text))"
    by (rule extract_first_match)
next
  assume a: "ascii_tables u"
  have "agree u latin1 (set (codes ''1.2K Likes, 340 Comments''))"
    using ascii_tables_agree [OF a] example_texts_ascii(1) by (rule agree_subset)
  then show "extract_likes_comments_str u (codes ''1.2K Likes, 340 Comments'') =
          (Some (codes ''1.2K''), Some (codes ''340''))"
    using extract_agree examples_latin1(1) by metis
next
  assume a: "ascii_tables u"
  have "agree u latin1 (set (codes ''no stats here''))"
    using ascii_tables_agree [OF a] example_texts_ascii(2) by (rule agree_subset)
  then show "extract_likes_comments_str u (codes ''no stats here'') = (None, None)"
    using extract_agree examples_latin1(2) by metis
next
  assume "latin1_tables u"
  then show "extract_likes_comments (PStr s) =
          Inr (group_or_none (fst (extract_likes_comments_str u (codes s))),
               group_or_none (snd (extract_likes_comments_str u (codes s))))"
    by (rule extract_on_record_value)
next
  show "extract_likes_comments (PStr ''1.2K Likes, 340 Comments'') = Inr (PStr ''1.2K'', PStr ''340'')"
    by code_simp
  show "extract_likes_comments (PStr ''no stats here'') = Inr (PNone, PNone)"
    by code_simp
qed

theorem likes_comments_first_occurrence_witness:
  "spec_first_match latin1 ''Likes'' (codes ''1.2K Likes, 340 Comments'') (Some (codes ''1.2K''))
   \<and> spec_first_match latin1 ''Comments'' (codes ''1.2K Likes, 340 Comments'') (Some (codes ''340''))
   \<and> spec_first_match latin1 ''Likes'' (codes ''no stats here'') None
   \<and> extract_likes_comments_str latin1 (codes ''1.2K Likes, 340 Comments'') =
        (Some (codes ''1.2K''), Some (codes ''340''))
   \<and> extract_likes_comments (PStr ''12 likes'') =
        Inr (group_or_none (fst (extract_likes_comments_str latin1 (codes ''12 likes''))),
             group_or_none (snd (extract_likes_comments_str latin1 (codes ''12 likes''))))"
proof -
  have a: "ascii_tables latin1" by (simp add: ascii_tables_def latin1_def)
  have b: "latin1_tables latin1" by (simp add: latin1_tables_def latin1_def)
  note t3 = likes_comments_first_occurrence [of latin1 "[]" "''12 likes''"]
  have e3: "extract_likes_comments (PStr ''12 likes'') =
        Inr (group_or_none (fst (extract_likes_comments_str latin1 (codes ''12 likes''))),
             group_or_none (snd (extract_likes_comments_str latin1 (codes ''12 likes''))))"
    using t3 b by blast
  note t1 = likes_comments_first_occurrence [of latin1 "codes ''1.2K Likes, 340 Comments''" "[]"]
  note t2 = likes_comments_first_occurrence [of latin1 "codes ''no stats here''" "[]"]
  have e1: "extract_likes_comments_str latin1 (codes ''1.2K Likes, 340 Comments'') =
      (Some (codes ''1.2K''), Some (codes ''340''))"
    using t1 a by blast
  have e2: "extract_likes_comments_str latin1 (codes ''no stats here'') = (None, None)"
    using t1 a by blast
  have "spec_first_match latin1 ''Likes'' (codes ''1.2K Likes, 340 Comments'')
          (fst (extract_likes_comments_str latin1 (codes ''1.2K Likes, 340 Comments'')))"
    "spec_first_match latin1 ''Comments'' (codes ''1.2K Likes, 340 Comments'')
          (snd (extract_likes_comments_str latin1 (codes ''1.2K Likes, 340 Comments'')))"
    using t1 by blast+
  moreover have "spec_first_match latin1 ''Likes'' (codes ''no stats here'')
          (fst (extract_likes_comments_str latin1 (codes ''no stats here'')))"
    using t2 by blast
  ultimately show ?thesis using e1 e2 e3 by simp
qed

end
